theory Spec2Isabelle
  imports Complex_Main "HOL-Library.List_Lexorder" "HOL-Library.AList" "HOL-Library.Multiset"
begin

section \<open>Strings\<close>

text \<open>
  A Python \<open>str\<close> is a sequence of Unicode code points. Text that the program reads from
  files (headings, file names, page text, table cells) is modelled as a list of code points,
  \<open>ustr\<close>; \<open>cp\<close> turns an ASCII literal into such a list. The selector typed by the user is
  modelled as an Isabelle \<open>string\<close>, whose characters are the code points below 256.
\<close>

type_synonym ustr = "nat list"

definition cp :: "string \<Rightarrow> ustr" where
  "cp s = map of_char s"

text \<open>\<open>str.isspace\<close>, the characters that \<open>str.strip()\<close> removes.\<close>

definition py_isspace :: "nat \<Rightarrow> bool" where
  "py_isspace c \<longleftrightarrow>
     (9 \<le> c \<and> c \<le> 13) \<or> (28 \<le> c \<and> c \<le> 32) \<or> c = 133 \<or> c = 160 \<or> c = 5760 \<or>
     (8192 \<le> c \<and> c \<le> 8202) \<or> c = 8232 \<or> c = 8233 \<or> c = 8239 \<or> c = 8287 \<or> c = 12288"

definition py_strip :: "ustr \<Rightarrow> ustr" where
  "py_strip s = rev (dropWhile py_isspace (rev (dropWhile py_isspace s)))"

text \<open>\<open>s.split(c)\<close> for a separator of one character: never empty, one more piece than
  there are separators.\<close>

fun split_on :: "'a \<Rightarrow> 'a list \<Rightarrow> 'a list list" where
  "split_on c [] = [[]]"
| "split_on c (x # xs) =
     (if x = c then [] # split_on c xs
      else (case split_on c xs of [] \<Rightarrow> [[x]] | p # ps \<Rightarrow> (x # p) # ps))"

text \<open>\<open>sep.join(parts)\<close>.\<close>

fun join :: "'a list \<Rightarrow> 'a list list \<Rightarrow> 'a list" where
  "join sep [] = []"
| "join sep [p] = p"
| "join sep (p # q # ps) = p @ sep @ join sep (q # ps)"

text \<open>\<open>str(n)\<close> for a natural number: its decimal digits.\<close>

fun str_nat :: "nat \<Rightarrow> ustr" where
  "str_nat n = (if n < 10 then [48 + n] else str_nat (n div 10) @ [48 + n mod 10])"

declare str_nat.simps [simp del]


section \<open>Text extraction (\<open>extract_pdf_text\<close>)\<close>

definition MAX_PDF_CHARS :: nat where
  "MAX_PDF_CHARS = 30000"

text \<open>The marker appended to a truncated text: two newlines, an opening bracket, a note of
  eight characters (CJK, a colon and a space) and a closing bracket; twelve code points.\<close>

definition TRUNCATION_MARKER :: ustr where
  "TRUNCATION_MARKER =
     [10, 10, 91, 27880, 58, 32, 25991, 26412, 24050, 25130, 26029, 93]"

text \<open>The line put before the text of page \<open>n\<close>: three dashes, the page number between two
  CJK characters, three dashes, a newline.\<close>

definition page_header :: "nat \<Rightarrow> ustr" where
  "page_header n =
     cp ''--- '' @ [31532, 32] @ str_nat n @ [32, 39029] @ cp '' ---'' @ [10]"

text \<open>The loop over \<open>enumerate(doc, 1)\<close>: \<open>pages\<close> holds what \<open>page.get_text\<close> returns for
  each page; a page whose text is blank adds nothing but still counts.\<close>

fun text_parts :: "nat \<Rightarrow> ustr list \<Rightarrow> ustr list" where
  "text_parts page_num [] = []"
| "text_parts page_num (t # pages) =
     (if py_strip t \<noteq> [] then (page_header page_num @ t) # text_parts (Suc page_num) pages
      else text_parts (Suc page_num) pages)"

text \<open>The local \<open>full_text\<close> before the length test.\<close>

definition full_text :: "ustr list \<Rightarrow> ustr" where
  "full_text pages = join [10, 10] (text_parts 1 pages)"

definition extract_pdf_text :: "ustr list \<Rightarrow> ustr" where
  "extract_pdf_text pages =
     (if length (full_text pages) > MAX_PDF_CHARS
      then take MAX_PDF_CHARS (full_text pages) @ TRUNCATION_MARKER
      else full_text pages)"


section \<open>Selector parsing (\<open>parse_selection\<close>)\<close>

text \<open>
  \<open>int(s)\<close> on a string, \<open>None\<close> where it raises \<open>ValueError\<close>. White space at both ends is
  skipped, a sign may follow, then decimal digits, where a single underscore may stand
  between two digits; a number written with more than 4300 digits is refused (the default
  limit of the interpreter, leading zeros counted). The digits are the decimal digits of
  Unicode, which come in blocks of ten; \<open>DIGIT_ZEROS\<close> lists the zero of each block as the
  character database of Python 3.11 has them. The white space of \<open>int\<close> is that of
  \<open>str.isspace\<close> without the four separators 28 to 31.
\<close>

definition DIGIT_ZEROS :: "nat list" where
  "DIGIT_ZEROS =
     [48, 1632, 1776, 1984, 2406, 2534, 2662, 2790, 2918, 3046, 3174, 3302, 3430, 3558,
      3664, 3792, 3872, 4160, 4240, 6112, 6160, 6470, 6608, 6784, 6800, 6992, 7088, 7232,
      7248, 42528, 43216, 43264, 43472, 43504, 43600, 44016, 65296, 66720, 68912, 69734,
      69872, 69942, 70096, 70384, 70736, 70864, 71248, 71360, 71472, 71904, 72016, 72784,
      73040, 73120, 92768, 92864, 93008, 120782, 120792, 120802, 120812, 120822, 123200,
      123632, 125264, 130032]"

definition MAX_STR_DIGITS :: nat where
  "MAX_STR_DIGITS = 4300"

definition int_space :: "nat \<Rightarrow> bool" where
  "int_space c \<longleftrightarrow> py_isspace c \<and> \<not> (28 \<le> c \<and> c \<le> 31)"

definition digit_of :: "nat \<Rightarrow> int option" where
  "digit_of c =
     (case find (\<lambda>z. z \<le> c \<and> c < z + 10) DIGIT_ZEROS of
        Some z \<Rightarrow> Some (int (c - z))
      | None \<Rightarrow> None)"

text \<open>After a first digit: more digits, each possibly preceded by one underscore. Returns
  the value read, the number of digits read and what is left of the string.\<close>

fun scan_digits :: "int \<Rightarrow> nat \<Rightarrow> ustr \<Rightarrow> int \<times> nat \<times> ustr" where
  "scan_digits acc n [] = (acc, n, [])"
| "scan_digits acc n [c] =
     (case digit_of c of Some d \<Rightarrow> (10 * acc + d, Suc n, []) | None \<Rightarrow> (acc, n, [c]))"
| "scan_digits acc n (c # c' # cs) =
     (case digit_of c of
        Some d \<Rightarrow> scan_digits (10 * acc + d) (Suc n) (c' # cs)
      | None \<Rightarrow>
          (if c = 95 then
             (case digit_of c' of
                Some d \<Rightarrow> scan_digits (10 * acc + d) (Suc n) cs
              | None \<Rightarrow> (acc, n, c # c' # cs))
           else (acc, n, c # c' # cs)))"

definition py_int :: "ustr \<Rightarrow> int option" where
  "py_int s =
     (let s1 = dropWhile int_space s;
          sign = (case s1 of [] \<Rightarrow> 1 | c # r \<Rightarrow> if c = 45 then - 1 else (1::int));
          s2 = (case s1 of [] \<Rightarrow> [] | c # r \<Rightarrow> if c = 45 \<or> c = 43 then r else s1)
      in case s2 of
           [] \<Rightarrow> None
         | c # cs \<Rightarrow>
             (case digit_of c of
                None \<Rightarrow> None
              | Some d \<Rightarrow>
                  (case scan_digits d 1 cs of
                     (v, n, rest) \<Rightarrow>
                       if dropWhile int_space rest = [] \<and> n \<le> MAX_STR_DIGITS
                       then Some (sign * v) else None)))"

text \<open>The two \<open>ValueError\<close>s that leave \<open>parse_selection\<close>; each message ends with the
  token that was refused.\<close>

datatype selection_error = BadRange ustr | BadNumber ustr

text \<open>The body of the loop for one non-empty \<open>part\<close>: the indices it adds to the set, or
  the error raised. Every exception of the range branch, the failed unpacking of
  \<open>part.split('-')\<close> included, is turned into \<open>BadRange part\<close> by the bare \<open>except\<close>;
  every \<open>ValueError\<close> of the other branch into \<open>BadNumber part\<close>.\<close>

definition parse_part :: "nat \<Rightarrow> ustr \<Rightarrow> selection_error + int set" where
  "parse_part max_num part =
     (if 45 \<in> set part then
        (case split_on 45 part of
           [a, b] \<Rightarrow>
             (case py_int a of
                None \<Rightarrow> Inl (BadRange part)
              | Some start \<Rightarrow>
                  (case py_int b of
                     None \<Rightarrow> Inl (BadRange part)
                   | Some end \<Rightarrow>
                       if start < 1 \<or> end > int max_num \<or> start > end
                       then Inl (BadRange part)
                       else Inr (set [start - 1 .. end - 1])))
         | _ \<Rightarrow> Inl (BadRange part))
      else
        (case py_int part of
           None \<Rightarrow> Inl (BadNumber part)
         | Some num \<Rightarrow>
             if num < 1 \<or> num > int max_num then Inl (BadNumber part)
             else Inr {num - 1}))"

fun parse_parts :: "nat \<Rightarrow> ustr list \<Rightarrow> int set \<Rightarrow> selection_error + int set" where
  "parse_parts max_num [] indices = Inr indices"
| "parse_parts max_num (part # parts) indices =
     (if part = [] then parse_parts max_num parts indices
      else (case parse_part max_num part of
              Inl e \<Rightarrow> Inl e
            | Inr new \<Rightarrow> parse_parts max_num parts (indices \<union> new)))"

definition parse_selection :: "ustr \<Rightarrow> nat \<Rightarrow> selection_error + int list" where
  "parse_selection selection max_num =
     (case parse_parts max_num (split_on 44 (filter (\<lambda>c. c \<noteq> 32) selection)) {} of
        Inl e \<Rightarrow> Inl e
      | Inr indices \<Rightarrow> Inr (sorted_list_of_set indices))"

text \<open>
  The selector grammar in the words of the specification, to compare \<open>parse_selection\<close>
  with: the tokens are the non-empty pieces between commas, blanks ignored; a token is a
  single integer within \<open>1..N\<close>, or \<open>a-b\<close> with \<open>1 \<le> a \<le> b \<le> N\<close>, and denotes the
  0-based indices it covers; any other token is malformed.
\<close>

definition selector_tokens :: "ustr \<Rightarrow> ustr list" where
  "selector_tokens s = filter (\<lambda>t. t \<noteq> []) (split_on 44 (filter (\<lambda>c. c \<noteq> 32) s))"

definition token_indices :: "nat \<Rightarrow> ustr \<Rightarrow> int set option" where
  "token_indices N t =
     (case map py_int (split_on 45 t) of
        [Some n] \<Rightarrow> if 1 \<le> n \<and> n \<le> int N then Some {n - 1} else None
      | [Some a, Some b] \<Rightarrow>
          if 1 \<le> a \<and> a \<le> b \<and> b \<le> int N then Some {a - 1 .. b - 1} else None
      | _ \<Rightarrow> None)"

definition token_set :: "nat \<Rightarrow> ustr \<Rightarrow> int set" where
  "token_set N t = (case token_indices N t of Some S \<Rightarrow> S | None \<Rightarrow> {})"

definition token_error :: "ustr \<Rightarrow> selection_error" where
  "token_error t = (if 45 \<in> set t then BadRange t else BadNumber t)"

text \<open>
  The decimal numerals of the specification's examples, to pin the numbers that
  \<open>parse_selection\<close> reads independently of \<open>py_int\<close>: a non-empty string of the digits
  \<open>0\<close> to \<open>9\<close>, and the number it writes in base ten.
\<close>

definition ascii_digits :: "ustr \<Rightarrow> bool" where
  "ascii_digits ds \<longleftrightarrow> (\<forall>c \<in> set ds. 48 \<le> c \<and> c \<le> 57)"

definition decimal_numeral :: "ustr \<Rightarrow> bool" where
  "decimal_numeral t \<longleftrightarrow> t \<noteq> [] \<and> ascii_digits t"

definition decimal_value :: "ustr \<Rightarrow> int" where
  "decimal_value t = foldl (\<lambda>a c. 10 * a + (int c - 48)) 0 t"

text \<open>The characters that can occur in a string \<open>int\<close> accepts, and the hyphen of a range:
  digits, the white space of \<open>int\<close>, the two signs and the underscore. A token with any
  other character is non-numeric.\<close>

definition numeral_char :: "nat \<Rightarrow> bool" where
  "numeral_char c \<longleftrightarrow> digit_of c \<noteq> None \<or> int_space c \<or> c = 43 \<or> c = 45 \<or> c = 95"


section \<open>The bucket catalogue (\<open>parse_theme_buckets\<close>)\<close>

definition startswith :: "'a list \<Rightarrow> 'a list \<Rightarrow> bool" where
  "startswith s prefix \<longleftrightarrow> take (length prefix) s = prefix"

text \<open>What one line of the bucket-definition document adds to \<open>themes\<close>. The first test of
  the source asks for a prefix and for its absence at once; the second branch takes every
  line that starts with two heading characters.\<close>

definition theme_of_line :: "ustr \<Rightarrow> ustr option" where
  "theme_of_line raw =
     (let line = py_strip raw in
      if startswith line (cp ''## '') \<and> \<not> startswith line (cp ''## '') then
        (let theme_name = py_strip (drop 3 line) in
         if theme_name \<noteq> [] then Some theme_name else None)
      else if startswith line (cp ''##'') then
        (let theme_name = py_strip (drop 2 line) in
         if theme_name \<noteq> [] then Some theme_name else None)
      else None)"

fun collect_themes :: "ustr list \<Rightarrow> ustr list" where
  "collect_themes [] = []"
| "collect_themes (line # lines) =
     (case theme_of_line line of
        Some theme_name \<Rightarrow> theme_name # collect_themes lines
      | None \<Rightarrow> collect_themes lines)"

definition parse_theme_buckets :: "ustr \<Rightarrow> ustr list" where
  "parse_theme_buckets content = collect_themes (split_on 10 content)"


section \<open>Scanning the collection (\<open>scan_folders\<close>)\<close>

record FolderStatus =
  name :: ustr
  total_pdfs :: nat
  processed :: nat
  pending :: nat
  pdf_files :: "ustr list"

text \<open>\<open>PurePath.suffix\<close> and \<open>PurePath.stem\<close> of a file name: the name is cut at its last
  dot, unless that dot is the first or the last character.\<close>

fun rfind :: "'a \<Rightarrow> 'a list \<Rightarrow> nat option" where
  "rfind c [] = None"
| "rfind c (x # xs) =
     (case rfind c xs of
        Some i \<Rightarrow> Some (Suc i)
      | None \<Rightarrow> if x = c then Some 0 else None)"

definition path_suffix :: "ustr \<Rightarrow> ustr" where
  "path_suffix nm =
     (case rfind 46 nm of
        Some i \<Rightarrow> if 0 < i \<and> i < length nm - 1 then drop i nm else []
      | None \<Rightarrow> [])"

definition path_stem :: "ustr \<Rightarrow> ustr" where
  "path_stem nm =
     (case rfind 46 nm of
        Some i \<Rightarrow> if 0 < i \<and> i < length nm - 1 then take i nm else nm
      | None \<Rightarrow> nm)"

text \<open>\<open>suffix.lower() == '.pdf'\<close>. Lowering is written out for the ASCII letters; no other
  character lowers to a dot or to one of the letters of the suffix.\<close>

definition lower_ascii :: "nat \<Rightarrow> nat" where
  "lower_ascii c = (if 65 \<le> c \<and> c \<le> 90 then c + 32 else c)"

definition is_pdf_name :: "ustr \<Rightarrow> bool" where
  "is_pdf_name nm \<longleftrightarrow> map lower_ascii (path_suffix nm) = cp ''.pdf''"

text \<open>An entry of a directory as \<open>iterdir\<close> yields it: a regular file, a directory with its
  own entries (each a name and whether it is a regular file), or anything else.\<close>

datatype entry_kind = RegularFile | Directory "(ustr \<times> bool) list" | OtherEntry

text \<open>The artifacts: the pairs of a bucket name and a stem for which the JSON file exists.\<close>

type_synonym artifact_set = "(ustr \<times> ustr) set"

fun count_processed :: "artifact_set \<Rightarrow> ustr \<Rightarrow> ustr list \<Rightarrow> nat \<times> nat \<Rightarrow> nat \<times> nat" where
  "count_processed js folder_name [] counts = counts"
| "count_processed js folder_name (pdf # rest) (n_processed, n_pending) =
     (if (folder_name, path_stem pdf) \<in> js
      then count_processed js folder_name rest (Suc n_processed, n_pending)
      else count_processed js folder_name rest (n_processed, Suc n_pending))"

definition folder_pdfs :: "(ustr \<times> bool) list \<Rightarrow> ustr list" where
  "folder_pdfs children = sort (map fst (filter (\<lambda>(f, is_file). is_file \<and> is_pdf_name f) children))"

definition folder_status :: "artifact_set \<Rightarrow> ustr \<Rightarrow> ustr list \<Rightarrow> FolderStatus" where
  "folder_status js folder_name files =
     (case count_processed js folder_name files (0, 0) of
        (n_processed, n_pending) \<Rightarrow>
          \<lparr>name = folder_name, total_pdfs = length files, processed = n_processed,
           pending = n_pending, pdf_files = files\<rparr>)"

text \<open>The loop over the entries of the collection root; \<open>folders\<close> is the dictionary keyed by
  folder name, \<open>root_pdfs\<close> the list of stray documents.\<close>

fun scan_items ::
  "artifact_set \<Rightarrow> (ustr \<times> entry_kind) list \<Rightarrow>
   (ustr \<times> FolderStatus) list \<times> ustr list \<Rightarrow> (ustr \<times> FolderStatus) list \<times> ustr list" where
  "scan_items js [] acc = acc"
| "scan_items js ((item, kind) # rest) (folders, root_pdfs) =
     (case kind of
        RegularFile \<Rightarrow>
          if is_pdf_name item then scan_items js rest (folders, root_pdfs @ [item])
          else scan_items js rest (folders, root_pdfs)
      | Directory children \<Rightarrow>
          if folder_pdfs children \<noteq> []
          then scan_items js rest
                 (AList.update item (folder_status js item (folder_pdfs children)) folders, root_pdfs)
          else scan_items js rest (folders, root_pdfs)
      | OtherEntry \<Rightarrow> scan_items js rest (folders, root_pdfs))"

definition scan_folders ::
  "artifact_set \<Rightarrow> (ustr \<times> entry_kind) list \<Rightarrow> FolderStatus list \<times> ustr list" where
  "scan_folders js root_dir =
     (case scan_items js root_dir ([], []) of
        (folders, root_pdfs) \<Rightarrow> (sort_key name (map snd folders), root_pdfs))"


text \<open>What one entry of the root adds to the buckets and to the stray documents; the scan is
  compared with these below.\<close>

definition bucket_entry :: "artifact_set \<Rightarrow> ustr \<times> entry_kind \<Rightarrow> (ustr \<times> FolderStatus) list" where
  "bucket_entry js e =
     (case e of
        (item, Directory children) \<Rightarrow>
          if folder_pdfs children \<noteq> []
          then [(item, folder_status js item (folder_pdfs children))] else []
      | _ \<Rightarrow> [])"

definition stray_entry :: "ustr \<times> entry_kind \<Rightarrow> ustr list" where
  "stray_entry e = (case e of (item, RegularFile) \<Rightarrow> if is_pdf_name item then [item] else [] | _ \<Rightarrow> [])"


section \<open>The extraction pipeline (\<open>process_folder\<close>, the loop of \<open>main\<close>)\<close>

text \<open>
  What the world outside does to one document decides how far its processing gets. An
  \<open>outcome\<close> names the step that raised, or \<open>Persisted\<close> when none did: text extraction,
  the inference call, \<open>json.loads\<close>, stamping the source folder on a value that is not an
  object, opening or writing the artifact, appending to the bucket's table, appending to the
  combined table. Every exception is caught inside the loop and counted as a failure.
\<close>

datatype outcome =
    TextError | LlmError | JsonDecodeError | AnnotateError | JsonOpenError | JsonDumpError
  | LocalCsvError | AllCsvError | Persisted

text \<open>
  The state the pipeline reads and writes: the existing artifacts, the rows of the combined
  table (the document of each row and its index column), the documents sent to the inference
  service, and how many documents were attempted so far. The \<open>n\<close>-th attempt of a run meets
  the outcome \<open>env n\<close>. A row counts as appended when \<open>append_to_csv\<close> returned.
\<close>

record world =
  artifacts :: artifact_set
  all_csv :: "((ustr \<times> ustr) \<times> int) list"
  llm_calls :: "(ustr \<times> ustr) list"
  attempts :: nat

record stats =
  success :: nat
  skip :: nat
  fail :: nat

definition json_exists :: "world \<Rightarrow> ustr \<Rightarrow> ustr \<Rightarrow> bool" where
  "json_exists w folder_name pdf \<longleftrightarrow> (folder_name, path_stem pdf) \<in> artifacts w"

text \<open>The first loop of \<open>process_folder\<close>: the documents to process and the number skipped.\<close>

fun select_pdfs :: "world \<Rightarrow> ustr \<Rightarrow> bool \<Rightarrow> ustr list \<Rightarrow> ustr list \<times> nat" where
  "select_pdfs w folder_name overwrite [] = ([], 0)"
| "select_pdfs w folder_name overwrite (pdf # rest) =
     (case select_pdfs w folder_name overwrite rest of
        (to_process, skipped) \<Rightarrow>
          if overwrite \<or> \<not> json_exists w folder_name pdf then (pdf # to_process, skipped)
          else (to_process, Suc skipped))"

text \<open>The body of the second loop for one document, under the outcome it meets.\<close>

definition process_pdf ::
  "outcome \<Rightarrow> ustr \<Rightarrow> ustr \<Rightarrow> world \<times> stats \<times> int \<Rightarrow> world \<times> stats \<times> int" where
  "process_pdf out folder_name pdf = (\<lambda>(w, st, global_index).
     (let tried = w\<lparr>attempts := Suc (attempts w)\<rparr>;
          called = tried\<lparr>llm_calls := llm_calls tried @ [(folder_name, pdf)]\<rparr>;
          written = called\<lparr>artifacts := insert (folder_name, path_stem pdf) (artifacts called)\<rparr>;
          failed = st\<lparr>fail := Suc (fail st)\<rparr>
      in case out of
           TextError \<Rightarrow> (tried, failed, global_index)
         | LlmError \<Rightarrow> (called, failed, global_index)
         | JsonDecodeError \<Rightarrow> (called, failed, global_index)
         | AnnotateError \<Rightarrow> (called, failed, global_index)
         | JsonOpenError \<Rightarrow> (called, failed, global_index)
         | JsonDumpError \<Rightarrow> (written, failed, global_index)
         | LocalCsvError \<Rightarrow> (written, failed, global_index)
         | AllCsvError \<Rightarrow> (written, failed, global_index)
         | Persisted \<Rightarrow>
             (written\<lparr>all_csv := all_csv written @ [((folder_name, pdf), global_index)]\<rparr>,
              st\<lparr>success := Suc (success st)\<rparr>,
              global_index + 1)))"

fun process_pdfs ::
  "(nat \<Rightarrow> outcome) \<Rightarrow> ustr \<Rightarrow> ustr list \<Rightarrow> world \<times> stats \<times> int \<Rightarrow> world \<times> stats \<times> int" where
  "process_pdfs env folder_name [] state = state"
| "process_pdfs env folder_name (pdf # rest) (w, st, global_index) =
     process_pdfs env folder_name rest
       (process_pdf (env (attempts w)) folder_name pdf (w, st, global_index))"

text \<open>\<open>process_folder\<close>; the prompt template and the catalogue text only shape the request
  and are left out.\<close>

definition process_folder ::
  "(nat \<Rightarrow> outcome) \<Rightarrow> FolderStatus \<Rightarrow> bool \<Rightarrow> int \<Rightarrow> world \<Rightarrow> world \<times> stats \<times> int" where
  "process_folder env folder overwrite global_index_start w =
     (case select_pdfs w (name folder) overwrite (pdf_files folder) of
        (to_process, skipped) \<Rightarrow>
          if to_process = [] then (w, \<lparr>success = 0, skip = skipped, fail = 0\<rparr>, global_index_start)
          else process_pdfs env (name folder) to_process
                 (w, \<lparr>success = 0, skip = skipped, fail = 0\<rparr>, global_index_start))"

text \<open>The exceptions that leave a function of the program uncaught.\<close>

datatype py_exception = IndexError | ValueError

definition add_stats :: "stats \<Rightarrow> stats \<Rightarrow> stats" where
  "add_stats total_stats st =
     \<lparr>success = success total_stats + success st, skip = skip total_stats + skip st,
      fail = fail total_stats + fail st\<rparr>"

text \<open>The loop of \<open>main\<close> over \<open>selected_indices\<close>.\<close>

fun run_selected ::
  "(nat \<Rightarrow> outcome) \<Rightarrow> FolderStatus list \<Rightarrow> bool \<Rightarrow> nat list \<Rightarrow> world \<times> stats \<times> int \<Rightarrow>
   py_exception + world \<times> stats \<times> int" where
  "run_selected env folders overwrite [] state = Inr state"
| "run_selected env folders overwrite (idx # rest) (w, total_stats, global_index) =
     (if length folders \<le> idx then Inl IndexError
      else if \<not> overwrite \<and> pending (folders ! idx) = 0
      then run_selected env folders overwrite rest (w, total_stats, global_index)
      else (case process_folder env (folders ! idx) overwrite global_index w of
              (w', st, global_index') \<Rightarrow>
                run_selected env folders overwrite rest
                  (w', add_stats total_stats st, global_index')))"

definition main_run ::
  "(nat \<Rightarrow> outcome) \<Rightarrow> FolderStatus list \<Rightarrow> nat list \<Rightarrow> bool \<Rightarrow> world \<Rightarrow>
   py_exception + world \<times> stats \<times> int" where
  "main_run env folders selected_indices overwrite w =
     run_selected env folders overwrite selected_indices
       (w, \<lparr>success = 0, skip = 0, fail = 0\<rparr>, 1)"


text \<open>The invariant of the run, between a state and a later one: the counter has advanced by
  the number of successes in between, and the rows appended to the combined table in between
  carry the consecutive indices starting at the earlier counter.\<close>

definition index_step :: "world \<times> stats \<times> int \<Rightarrow> world \<times> stats \<times> int \<Rightarrow> bool" where
  "index_step s s' =
     (case s of (w, st, g) \<Rightarrow> case s' of (w', st', g') \<Rightarrow>
        success st \<le> success st' \<and>
        g' = g + int (success st' - success st) \<and>
        (\<exists>rows. all_csv w' = all_csv w @ rows \<and>
           map snd rows = map (\<lambda>k. g + int k) [0 ..< success st' - success st]))"


section \<open>Re-scoring (\<open>load_p0_csv\<close>, \<open>calculate_scenario_score\<close>, the tables)\<close>

text \<open>
  A finite Python \<open>float\<close> is modelled by the rational number it denotes, so comparisons
  and the constants of the threshold table are exact. What the interpreter computes with
  rounding is not modelled but taken as given: \<open>float_of_str\<close> is \<open>float\<close> on a string
  (\<open>None\<close> where it raises \<open>ValueError\<close>), \<open>fadd\<close> and \<open>fmul\<close> are the sum and the product of
  two floats, \<open>fround1\<close> is \<open>round(x, 1)\<close>. Infinities and NaN lie outside the model.
\<close>

record float_ops =
  float_of_str :: "ustr \<Rightarrow> rat option"
  fadd :: "rat \<Rightarrow> rat \<Rightarrow> rat"
  fmul :: "rat \<Rightarrow> rat \<Rightarrow> rat"
  fround1 :: "rat \<Rightarrow> rat"

text \<open>A row as \<open>csv.DictReader\<close> yields it for a record that has as many fields as the
  header: the column names with their values, in the order of the header.\<close>

type_synonym row = "(ustr \<times> ustr) list"

text \<open>The column names of the combined table that the re-scoring reads: the index, the
  title, the five dimensions, the overall score and the level.\<close>

definition COL_INDEX :: ustr where "COL_INDEX = [32534, 21495]"
definition COL_TITLE :: ustr where "COL_TITLE = [26631, 39064]"
definition COL_RIGOR :: ustr where "COL_RIGOR = [23398, 26415, 20005, 35880, 24230]"
definition COL_INNOVATION :: ustr where "COL_INNOVATION = [21019, 26032, 31243, 24230]"
definition COL_PRACTICALITY :: ustr where "COL_PRACTICALITY = [23454, 29992, 20215, 20540]"
definition COL_IMPACT :: ustr where "COL_IMPACT = [24433, 21709, 33539, 22260]"
definition COL_READABILITY :: ustr where "COL_READABILITY = [21487, 35835, 24615]"
definition COL_OVERALL :: ustr where "COL_OVERALL = [32508, 21512, 35780, 20998]"
definition COL_LEVEL :: ustr where "COL_LEVEL = [25512, 33616, 31561, 32423]"

text \<open>The header of the combined table as \<open>init_csv\<close> writes it: the values of
  \<open>CSV_FIELD_MAP\<close>, in order.\<close>

definition CSV_HEADERS :: "ustr list" where
  "CSV_HEADERS =
     [[32534, 21495],
      [24180, 20221],
      [26399, 21002],
      [20316, 32773],
      [26631, 39064],
      [35770, 25991, 31867, 22411],
      [39046, 22495, 26631, 31614],
      [20851, 38190, 35789],
      [30740, 31350, 23545, 35937],
      [30740, 31350, 26041, 27861],
      [30740, 31350, 38382, 39064],
      [26680, 24515, 32467, 35770],
      [20855, 20307, 23454, 29616, 36335, 24452, 95, 31616, 26126],
      [20027, 35201, 36129, 29486],
      [23398, 26415, 20005, 35880, 24230],
      [21019, 26032, 31243, 24230],
      [23454, 29992, 20215, 20540],
      [24433, 21709, 33539, 22260],
      [21487, 35835, 24615],
      [32508, 21512, 35780, 20998],
      [25512, 33616, 31561, 32423]]"

record PaperRecord =
  index :: ustr
  title :: ustr
  rigor :: rat
  innovation :: rat
  practicality :: rat
  impact :: rat
  readability :: rat
  p0_overall :: rat
  p0_level :: ustr
  original_row :: row

record ScenarioScore =
  scenario_name :: ustr
  overall_score :: rat
  level :: ustr

text \<open>The weights of a scenario, \<open>weights['rigor']\<close> and so on.\<close>

record weights =
  w_rigor :: rat
  w_innovation :: rat
  w_practicality :: rat
  w_impact :: rat
  w_readability :: rat

text \<open>The levels are one to five stars.\<close>

definition stars :: "nat \<Rightarrow> ustr" where
  "stars n = replicate n 11088"

definition SCORE_TO_LEVEL :: "(rat \<times> ustr) list" where
  "SCORE_TO_LEVEL = [(9, stars 5), (15 / 2, stars 4), (6, stars 3), (4, stars 2), (0, stars 1)]"

fun first_level :: "(rat \<times> ustr) list \<Rightarrow> rat \<Rightarrow> ustr" where
  "first_level [] score = stars 1"
| "first_level ((threshold, lvl) # rest) score =
     (if score \<ge> threshold then lvl else first_level rest score)"

definition score_to_level :: "rat \<Rightarrow> ustr" where
  "score_to_level score = first_level SCORE_TO_LEVEL score"

text \<open>\<open>row.get(col, '')\<close> and \<open>float(row.get(col, 0) or 0)\<close>: an absent column and an empty
  value both give \<open>float(0)\<close>; only a value that is not empty reaches \<open>float\<close>.\<close>

definition get_text :: "row \<Rightarrow> ustr \<Rightarrow> ustr \<Rightarrow> ustr" where
  "get_text r col dflt = (case map_of r col of Some v \<Rightarrow> v | None \<Rightarrow> dflt)"

definition read_score :: "float_ops \<Rightarrow> row \<Rightarrow> ustr \<Rightarrow> rat option" where
  "read_score ops r col =
     (case map_of r col of
        None \<Rightarrow> Some 0
      | Some v \<Rightarrow> if v = [] then Some 0 else float_of_str ops v)"

text \<open>The body of the loop of \<open>load_p0_csv\<close> for one row: the record, or the identity named
  in the warning when one of the six conversions raises \<open>ValueError\<close>.\<close>

definition parse_row :: "float_ops \<Rightarrow> row \<Rightarrow> ustr + PaperRecord" where
  "parse_row ops r =
     (case read_score ops r COL_RIGOR of None \<Rightarrow> Inl (get_text r COL_INDEX [63]) | Some v1 \<Rightarrow>
      case read_score ops r COL_INNOVATION of None \<Rightarrow> Inl (get_text r COL_INDEX [63]) | Some v2 \<Rightarrow>
      case read_score ops r COL_PRACTICALITY of None \<Rightarrow> Inl (get_text r COL_INDEX [63]) | Some v3 \<Rightarrow>
      case read_score ops r COL_IMPACT of None \<Rightarrow> Inl (get_text r COL_INDEX [63]) | Some v4 \<Rightarrow>
      case read_score ops r COL_READABILITY of None \<Rightarrow> Inl (get_text r COL_INDEX [63]) | Some v5 \<Rightarrow>
      case read_score ops r COL_OVERALL of None \<Rightarrow> Inl (get_text r COL_INDEX [63]) | Some v6 \<Rightarrow>
        Inr \<lparr>index = py_strip (get_text r COL_INDEX []),
             title = py_strip (get_text r COL_TITLE []),
             rigor = v1, innovation = v2, practicality = v3, impact = v4, readability = v5,
             p0_overall = v6, p0_level = get_text r COL_LEVEL [], original_row = r\<rparr>)"

text \<open>\<open>load_p0_csv\<close> on the rows of the reader: the records kept and the warnings printed,
  both in the order of the rows.\<close>

fun load_p0_csv :: "float_ops \<Rightarrow> row list \<Rightarrow> PaperRecord list \<times> ustr list" where
  "load_p0_csv ops [] = ([], [])"
| "load_p0_csv ops (r # rows) =
     (case load_p0_csv ops rows of
        (papers, warnings) \<Rightarrow>
          (case parse_row ops r of
             Inr paper \<Rightarrow> (paper # papers, warnings)
           | Inl ident \<Rightarrow> (papers, ident # warnings)))"

definition calculate_scenario_score :: "float_ops \<Rightarrow> PaperRecord \<Rightarrow> weights \<Rightarrow> ScenarioScore" where
  "calculate_scenario_score ops paper w =
     (let overall =
            fadd ops (fadd ops (fadd ops (fadd ops
              (fmul ops (rigor paper) (w_rigor w))
              (fmul ops (innovation paper) (w_innovation w)))
              (fmul ops (practicality paper) (w_practicality w)))
              (fmul ops (impact paper) (w_impact w)))
              (fmul ops (readability paper) (w_readability w));
          rounded = fround1 ops overall
      in \<lparr>scenario_name = [], overall_score = rounded, level = score_to_level rounded\<rparr>)"

text \<open>A cell handed to the csv writer: a string, or a float that the writer prints.\<close>

datatype cell = Str ustr | Num rat

definition score_col :: "ustr \<Rightarrow> ustr" where
  "score_col scenario = [32508, 21512, 35780, 20998, 95] @ scenario"

definition level_col :: "ustr \<Rightarrow> ustr" where
  "level_col scenario = [25512, 33616, 31561, 32423, 95] @ scenario"

definition FLAG_COL :: ustr where
  "FLAG_COL = [9733, 25512, 33616, 25351, 25968]"

text \<open>The flag of a rank: a fire sign and \<open>TOP\<close> with the rank up to rank 10, empty after.\<close>

definition top_flag :: "nat \<Rightarrow> ustr" where
  "top_flag rank = (if rank \<le> 10 then [128293] @ cp '' TOP '' @ str_nat rank else [])"

definition ranking_filename :: "ustr \<Rightarrow> ustr" where
  "ranking_filename scenario = [25490, 24207, 34920, 95] @ scenario @ cp ''.csv''"

text \<open>\<open>list.sort(key=..., reverse=True)\<close>: the list is reversed, sorted stably in ascending
  order of the key, and reversed again.\<close>

definition sort_reverse :: "('a \<Rightarrow> rat) \<Rightarrow> 'a list \<Rightarrow> 'a list" where
  "sort_reverse key xs = rev (sort_key key (rev xs))"

text \<open>\<open>DictWriter.writerow\<close>: a key outside the field names raises \<open>ValueError\<close>; otherwise
  the values are written in the order of the field names, an absent one as the empty
  string.\<close>

definition writerow :: "ustr list \<Rightarrow> (ustr \<times> cell) list \<Rightarrow> py_exception + cell list" where
  "writerow fieldnames r =
     (if \<exists>k \<in> set (map fst r). k \<notin> set fieldnames then Inl ValueError
      else Inr (map (\<lambda>h. case map_of r h of Some v \<Rightarrow> v | None \<Rightarrow> Str []) fieldnames))"

text \<open>The row written for the paper at \<open>rank\<close>: a copy of the original row with the three
  keys of the scenario set.\<close>

definition ranking_row :: "ustr \<Rightarrow> nat \<Rightarrow> PaperRecord \<times> ScenarioScore \<Rightarrow> (ustr \<times> cell) list" where
  "ranking_row scenario rank scored =
     AList.update FLAG_COL (Str (top_flag rank))
       (AList.update (level_col scenario) (Str (level (snd scored)))
          (AList.update (score_col scenario) (Num (overall_score (snd scored)))
             (map (\<lambda>(k, v). (k, Str v)) (original_row (fst scored)))))"

text \<open>The loop that writes the data rows, from \<open>rank\<close> on; \<open>written\<close> is the content of the
  file so far. It stops at the first row that the writer refuses.\<close>

fun write_rows ::
  "ustr list \<Rightarrow> ustr \<Rightarrow> nat \<Rightarrow> (PaperRecord \<times> ScenarioScore) list \<Rightarrow> cell list list \<Rightarrow>
   cell list list \<times> py_exception option" where
  "write_rows fieldnames scenario rank [] written = (written, None)"
| "write_rows fieldnames scenario rank (scored # rest) written =
     (case writerow fieldnames (ranking_row scenario rank scored) of
        Inl e \<Rightarrow> (written, Some e)
      | Inr cells \<Rightarrow> write_rows fieldnames scenario (Suc rank) rest (written @ [cells]))"

text \<open>One pass of the loop over the scenarios: the content of the file it leaves, and the
  exception that ends the pass, if any. The file is opened before the header is built from
  \<open>papers[0]\<close>, so it exists, empty, when there is no first paper.\<close>

definition ranking_file ::
  "float_ops \<Rightarrow> PaperRecord list \<Rightarrow> ustr \<times> weights \<Rightarrow> cell list list \<times> py_exception option" where
  "ranking_file ops papers scenario =
     (let scored_papers =
            sort_reverse (\<lambda>x. overall_score (snd x))
              (map (\<lambda>paper. (paper, calculate_scenario_score ops paper (snd scenario))) papers)
      in case papers of
           [] \<Rightarrow> ([], Some IndexError)
         | first # _ \<Rightarrow>
             (let headers = map fst (original_row first) @
                    [score_col (fst scenario), level_col (fst scenario), FLAG_COL]
              in write_rows headers (fst scenario) 1 scored_papers [map Str headers]))"

text \<open>\<open>create_scenario_ranking_tables\<close>: the files written, by name, and the exception that
  stopped it, if any. \<open>scenarios\<close> are the items of \<open>config['scenarios']\<close>, each a name with
  its weights.\<close>

fun create_scenario_ranking_tables ::
  "float_ops \<Rightarrow> PaperRecord list \<Rightarrow> (ustr \<times> weights) list \<Rightarrow>
   (ustr \<times> cell list list) list \<times> py_exception option" where
  "create_scenario_ranking_tables ops papers [] = ([], None)"
| "create_scenario_ranking_tables ops papers (scenario # rest) =
     (case ranking_file ops papers scenario of
        (content, Some e) \<Rightarrow> ([(ranking_filename (fst scenario), content)], Some e)
      | (content, None) \<Rightarrow>
          (case create_scenario_ranking_tables ops papers rest of
             (files, err) \<Rightarrow> ((ranking_filename (fst scenario), content) # files, err)))"

text \<open>\<open>create_comparison_table\<close>: the header and one row for each paper.\<close>

definition comparison_row ::
  "float_ops \<Rightarrow> (ustr \<times> weights) list \<Rightarrow> PaperRecord \<Rightarrow> cell list" where
  "comparison_row ops scenarios paper =
     [Str (index paper), Str (title paper), Num (rigor paper), Num (innovation paper),
      Num (practicality paper), Num (impact paper), Num (readability paper),
      Num (p0_overall paper), Str (p0_level paper)] @
     concat (map (\<lambda>scenario.
       [Num (overall_score (calculate_scenario_score ops paper (snd scenario))),
        Str (level (calculate_scenario_score ops paper (snd scenario)))]) scenarios)"

definition comparison_header :: "(ustr \<times> weights) list \<Rightarrow> cell list" where
  "comparison_header scenarios =
     map Str ([COL_INDEX, COL_TITLE, COL_RIGOR, COL_INNOVATION, COL_PRACTICALITY, COL_IMPACT,
               COL_READABILITY, score_col (cp ''P0''), level_col (cp ''P0'')] @
              concat (map (\<lambda>scenario. [score_col (fst scenario), level_col (fst scenario)])
                scenarios))"

definition create_comparison_table ::
  "float_ops \<Rightarrow> PaperRecord list \<Rightarrow> (ustr \<times> weights) list \<Rightarrow> cell list list" where
  "create_comparison_table ops papers scenarios =
     comparison_header scenarios # map (comparison_row ops scenarios) papers"


text \<open>
  The tables in the words of the specification, to compare the code with. A row is dropped
  when \<open>float\<close> rejects one of its six score values; an empty or absent value is not handed
  to \<open>float\<close>. The papers of a scenario are ranked by its overall score; the ranking table
  has the original columns followed by the score, the level and the flag, in a header and
  one row for every rank from 1 on.
\<close>

definition SCORE_COLUMNS :: "ustr list" where
  "SCORE_COLUMNS = [COL_RIGOR, COL_INNOVATION, COL_PRACTICALITY, COL_IMPACT, COL_READABILITY]"

definition rejects :: "float_ops \<Rightarrow> row \<Rightarrow> ustr \<Rightarrow> bool" where
  "rejects ops r col \<longleftrightarrow>
     (case map_of r col of None \<Rightarrow> False | Some v \<Rightarrow> v \<noteq> [] \<and> float_of_str ops v = None)"

definition row_dropped :: "float_ops \<Rightarrow> row \<Rightarrow> bool" where
  "row_dropped ops r \<longleftrightarrow> (\<exists>col \<in> set (SCORE_COLUMNS @ [COL_OVERALL]). rejects ops r col)"






section \<open>Properties of text extraction\<close>

lemma length_TRUNCATION_MARKER: "length TRUNCATION_MARKER = 12"
  by (simp add: TRUNCATION_MARKER_def)

text \<open>
  C10. A text of at most 30000 characters is returned as it is; a longer one is cut to its
  first 30000 characters and the marker is appended, so the result has 30012 characters,
  more than the budget of 30000.
\<close>

theorem extract_pdf_text_truncation:
  "(length (full_text pages) \<le> 30000 \<longrightarrow> extract_pdf_text pages = full_text pages) \<and>
   (length (full_text pages) > 30000 \<longrightarrow>
      extract_pdf_text pages = take 30000 (full_text pages) @ TRUNCATION_MARKER \<and>
      length (extract_pdf_text pages) = 30000 + length TRUNCATION_MARKER \<and>
      length (extract_pdf_text pages) > MAX_PDF_CHARS)"
  by (simp add: extract_pdf_text_def MAX_PDF_CHARS_def length_TRUNCATION_MARKER)

lemma full_text_long_page: "full_text [replicate 30001 97] = page_header 1 @ replicate 30001 97"
  by (simp add: full_text_def py_strip_def py_isspace_def)

theorem extract_pdf_text_truncation_witness:
  "length (full_text [cp ''abc'']) \<le> 30000 \<and>
   extract_pdf_text [cp ''abc''] = full_text [cp ''abc''] \<and>
   length (full_text [replicate 30001 97]) > 30000 \<and>
   extract_pdf_text [replicate 30001 97] =
     take 30000 (full_text [replicate 30001 97]) @ TRUNCATION_MARKER \<and>
   length (extract_pdf_text [replicate 30001 97]) = 30012"
proof -
  have s: "length (full_text [cp ''abc'']) \<le> 30000"
    by (simp add: full_text_def py_strip_def py_isspace_def cp_def page_header_def str_nat.simps)
  have l: "length (full_text [replicate 30001 97]) > 30000"
    by (simp add: full_text_long_page)
  from extract_pdf_text_truncation [of "[cp ''abc'']"] s
  have a: "extract_pdf_text [cp ''abc''] = full_text [cp ''abc'']"
    by blast
  from extract_pdf_text_truncation [of "[replicate 30001 97]"] l
  have b: "extract_pdf_text [replicate 30001 97] =
      take 30000 (full_text [replicate 30001 97]) @ TRUNCATION_MARKER \<and>
    length (extract_pdf_text [replicate 30001 97]) = 30000 + length TRUNCATION_MARKER"
    by blast
  from s l a b show ?thesis by (simp add: length_TRUNCATION_MARKER)
qed


section \<open>Properties of selector parsing\<close>

lemma split_on_not_Nil: "split_on c xs \<noteq> []"
  by (induction xs) (auto split: list.splits)

lemma split_on_notin: "c \<notin> set xs \<Longrightarrow> split_on c xs = [xs]"
  by (induction xs) auto

lemma split_on_in: "c \<in> set xs \<Longrightarrow> \<exists>a b rest. split_on c xs = a # b # rest"
proof (induction xs)
  case Nil
  then show ?case by simp
next
  case (Cons x xs)
  show ?case
  proof (cases "x = c")
    case True
    then show ?thesis using split_on_not_Nil [of c xs] by (cases "split_on c xs") auto
  next
    case False
    with Cons obtain a b rest where "split_on c xs = a # b # rest" by auto
    with False show ?thesis by simp
  qed
qed

lemma split_on_append_sep: "c \<notin> set xs \<Longrightarrow> split_on c (xs @ c # ys) = xs # split_on c ys"
  by (induction xs) auto

lemma digit_of_ascii: "48 \<le> c \<Longrightarrow> c \<le> 57 \<Longrightarrow> digit_of c = Some (int c - 48)"
  by (simp add: digit_of_def DIGIT_ZEROS_def)

lemma digit_of_below: "c < 48 \<Longrightarrow> digit_of c = None"
  by (simp add: digit_of_def DIGIT_ZEROS_def)

lemma int_space_digit: "48 \<le> c \<Longrightarrow> c \<le> 57 \<Longrightarrow> \<not> int_space c"
  by (simp add: int_space_def py_isspace_def)


lemma scan_ascii_digits:
  "ascii_digits cs \<Longrightarrow>
     scan_digits acc n cs = (foldl (\<lambda>a c. 10 * a + (int c - 48)) acc cs, n + length cs, [])"
proof (induction acc n cs rule: scan_digits.induct)
  case (1 acc n)
  show ?case by simp
next
  case (2 acc n c)
  then show ?case by (simp add: ascii_digits_def digit_of_ascii)
next
  case (3 acc n c c' cs)
  from "3.prems" have c: "48 \<le> c" "c \<le> 57" and rest: "ascii_digits (c' # cs)"
    by (simp_all add: ascii_digits_def)
  from "3.IH"(2) [OF digit_of_ascii [OF c] rest] show ?case
    by (simp add: digit_of_ascii [OF c])
qed

lemma str_nat_digits: "ascii_digits (str_nat k)"
proof (induction k rule: str_nat.induct)
  case (1 n)
  show ?case
  proof (cases "n < 10")
    case True
    then show ?thesis by (subst str_nat.simps) (simp add: ascii_digits_def)
  next
    case False
    have "n mod 10 < 10" by simp
    with False 1 show ?thesis
      by (subst str_nat.simps) (simp add: ascii_digits_def)
  qed
qed

lemma str_nat_not_Nil: "str_nat k \<noteq> []"
  by (subst str_nat.simps) simp

lemma str_nat_value: "foldl (\<lambda>a c. 10 * a + (int c - 48)) 0 (str_nat k) = int k"
proof (induction k rule: str_nat.induct)
  case (1 n)
  show ?case
  proof (cases "n < 10")
    case True
    then show ?thesis by (subst str_nat.simps) simp
  next
    case False
    with 1 have "foldl (\<lambda>a c. 10 * a + (int c - 48)) 0 (str_nat (n div 10)) = int (n div 10)"
      by simp
    with False show ?thesis
      by (subst str_nat.simps) (simp add: zdiv_int zmod_int)
  qed
qed

lemma length_str_nat: "0 < d \<Longrightarrow> k < 10 ^ d \<Longrightarrow> length (str_nat k) \<le> d"
proof (induction k arbitrary: d rule: str_nat.induct)
  case (1 n)
  show ?case
  proof (cases "n < 10")
    case True
    with "1.prems" show ?thesis by (subst str_nat.simps) simp
  next
    case False
    with "1.prems" have "1 < d"
      by (cases "d = 1") auto
    then obtain d' where d: "d = Suc d'" and d': "0 < d'"
      by (cases d) auto
    from "1.prems" d have "n div 10 < 10 ^ d'"
      by (simp add: less_mult_imp_div_less mult.commute)
    from "1.IH" [OF False d' this] False d show ?thesis
      by (subst str_nat.simps) simp
  qed
qed

lemma py_int_ascii_digits:
  assumes "ascii_digits ds" and "ds \<noteq> []"
  shows "py_int ds =
           (if length ds \<le> MAX_STR_DIGITS
            then Some (foldl (\<lambda>a c. 10 * a + (int c - 48)) 0 ds) else None)"
proof -
  from assms obtain c cs where ds: "ds = c # cs" by (cases ds) auto
  with assms(1) have c: "48 \<le> c" "c \<le> 57" and cs: "ascii_digits cs"
    by (simp_all add: ascii_digits_def)
  have nospace: "\<not> int_space c"
    using c by (rule int_space_digit)
  have nosign: "c \<noteq> 45" "c \<noteq> 43"
    using c by simp_all
  show ?thesis
    unfolding py_int_def ds
    using nospace nosign
    by (simp add: digit_of_ascii [OF c] scan_ascii_digits [OF cs] Let_def)
qed

lemma py_int_str_nat:
  "py_int (str_nat k) = (if length (str_nat k) \<le> MAX_STR_DIGITS then Some (int k) else None)"
  using py_int_ascii_digits [OF str_nat_digits str_nat_not_Nil, of k]
  by (simp add: str_nat_value)

lemma py_int_str_nat_small:
  assumes "k < 10 ^ 4300"
  shows "py_int (str_nat k) = Some (int k)"
proof -
  have "(0::nat) < 4300" by simp
  then have "length (str_nat k) \<le> 4300"
    using assms by (rule length_str_nat)
  then show ?thesis
    unfolding py_int_str_nat MAX_STR_DIGITS_def by (rule if_P)
qed

lemma hyphen_notin_str_nat: "45 \<notin> set (str_nat k)"
  using str_nat_digits [of k] by (auto simp: ascii_digits_def)


lemma scan_digits_consumed:
  "scan_digits acc n cs = (v, m, rest) \<Longrightarrow>
     \<exists>pre. cs = pre @ rest \<and> (\<forall>c \<in> set pre. numeral_char c)"
proof (induction acc n cs arbitrary: v m rest rule: scan_digits.induct)
  case (1 acc n)
  then show ?case by simp
next
  case (2 acc n c)
  then show ?case
    by (cases "digit_of c") (auto simp: numeral_char_def)
next
  case (3 acc n c c' cs)
  show ?case
  proof (cases "digit_of c")
    case (Some d)
    with "3.prems" have "scan_digits (10 * acc + d) (Suc n) (c' # cs) = (v, m, rest)"
      by simp
    from "3.IH"(2) [OF Some this] obtain pre where "c' # cs = pre @ rest"
      and "\<forall>x \<in> set pre. numeral_char x" by blast
    with Some have "c # c' # cs = (c # pre) @ rest \<and> (\<forall>x \<in> set (c # pre). numeral_char x)"
      by (simp add: numeral_char_def)
    then show ?thesis by blast
  next
    case None
    show ?thesis
    proof (cases "c = 95 \<and> digit_of c' \<noteq> None")
      case True
      then obtain d where d: "digit_of c' = Some d" and c: "c = 95" by auto
      with None "3.prems" have "scan_digits (10 * acc + d) (Suc n) cs = (v, m, rest)"
        by simp
      from "3.IH"(1) [OF None c d this] obtain pre where "cs = pre @ rest"
        and "\<forall>x \<in> set pre. numeral_char x" by blast
      with c d have "c # c' # cs = (c # c' # pre) @ rest \<and>
          (\<forall>x \<in> set (c # c' # pre). numeral_char x)"
        by (simp add: numeral_char_def)
      then show ?thesis by blast
    next
      case False
      with None "3.prems" have "rest = c # c' # cs"
        by (auto split: if_splits option.splits)
      then show ?thesis by simp
    qed
  qed
qed

lemma py_int_chars:
  assumes "py_int s = Some v"
  shows "\<forall>c \<in> set s. numeral_char c"
proof -
  let ?s1 = "dropWhile int_space s"
  have lead: "\<forall>c \<in> set (takeWhile int_space s). numeral_char c"
    by (auto simp: numeral_char_def dest: set_takeWhileD)
  have "\<forall>c \<in> set ?s1. numeral_char c"
  proof (cases ?s1)
    case Nil
    show ?thesis unfolding Nil by simp
  next
    case (Cons c r)
    let ?s2 = "if c = 45 \<or> c = 43 then r else ?s1"
    from assms Cons obtain c2 cs d where s2: "?s2 = c2 # cs" and d: "digit_of c2 = Some d"
      and sc: "case scan_digits d 1 cs of (v', n, rest) \<Rightarrow>
                 dropWhile int_space rest = [] \<and> n \<le> MAX_STR_DIGITS"
      by (auto simp: py_int_def Let_def split: list.splits option.splits if_splits prod.splits)
    obtain v' n rest where r: "scan_digits d 1 cs = (v', n, rest)"
      by (cases "scan_digits d 1 cs") auto
    with sc have ws: "dropWhile int_space rest = []" by simp
    from scan_digits_consumed [OF r] obtain pre where cs: "cs = pre @ rest"
      and pre: "\<forall>x \<in> set pre. numeral_char x" by blast
    from ws have "\<forall>x \<in> set rest. int_space x"
      by (simp add: dropWhile_eq_Nil_conv)
    with pre cs d have "\<forall>x \<in> set (c2 # cs). numeral_char x"
      by (auto simp: numeral_char_def)
    with s2 have s2ok: "\<forall>x \<in> set ?s2. numeral_char x" by simp
    show ?thesis
    proof (cases "c = 45 \<or> c = 43")
      case True
      with s2ok Cons show ?thesis by (auto simp: numeral_char_def)
    next
      case False
      with s2ok show ?thesis by simp
    qed
  qed
  with lead show ?thesis
    by (metis UnE set_append takeWhile_dropWhile_id)
qed

lemma split_on_covers: "x \<in> set xs \<Longrightarrow> x \<noteq> c \<Longrightarrow> \<exists>p \<in> set (split_on c xs). x \<in> set p"
proof (induction xs)
  case Nil
  then show ?case by simp
next
  case (Cons y xs)
  obtain p ps where s: "split_on c xs = p # ps"
    using split_on_not_Nil [of c xs] by (cases "split_on c xs") auto
  show ?case
  proof (cases "x = y")
    case True
    with Cons.prems s show ?thesis by simp
  next
    case False
    with Cons obtain q where "q \<in> set (split_on c xs)" "x \<in> set q" by auto
    with s show ?thesis by (cases "y = c") auto
  qed
qed

lemma token_indices_Some_pieces:
  "token_indices N t = Some S \<Longrightarrow> \<forall>p \<in> set (split_on 45 t). py_int p \<noteq> None"
  by (auto simp: token_indices_def split: list.splits option.splits if_splits)

lemma token_indices_non_numeric:
  assumes "c \<in> set t" and "\<not> numeral_char c"
  shows "token_indices N t = None"
proof (rule ccontr)
  assume "token_indices N t \<noteq> None"
  then obtain S where "token_indices N t = Some S" by auto
  from token_indices_Some_pieces [OF this]
  have ok: "\<forall>p \<in> set (split_on 45 t). py_int p \<noteq> None" .
  from assms(2) have "c \<noteq> 45" by (auto simp: numeral_char_def)
  from split_on_covers [OF assms(1) this] obtain p where p: "p \<in> set (split_on 45 t)"
    and c: "c \<in> set p" by blast
  from ok p obtain v where "py_int p = Some v" by auto
  from py_int_chars [OF this] c assms(2) show False by blast
qed

lemma token_indices_single:
  "token_indices N (str_nat k) =
     (if 1 \<le> k \<and> k \<le> N \<and> length (str_nat k) \<le> MAX_STR_DIGITS then Some {int k - 1} else None)"
  by (simp add: token_indices_def split_on_notin [OF hyphen_notin_str_nat] py_int_str_nat)

lemma token_indices_range:
  "token_indices N (str_nat a @ [45] @ str_nat b) =
     (if 1 \<le> a \<and> a \<le> b \<and> b \<le> N \<and> length (str_nat a) \<le> MAX_STR_DIGITS \<and>
         length (str_nat b) \<le> MAX_STR_DIGITS
      then Some {int a - 1 .. int b - 1} else None)"
  by (simp add: token_indices_def split_on_append_sep [OF hyphen_notin_str_nat]
      split_on_notin [OF hyphen_notin_str_nat] py_int_str_nat)

lemma str_nat_within_limit:
  assumes "k \<le> N" and "N < 10 ^ 4300"
  shows "length (str_nat k) \<le> MAX_STR_DIGITS"
proof -
  from assms have "k < 10 ^ 4300" by (rule le_less_trans)
  have "(0::nat) < 4300" by simp
  then have "length (str_nat k) \<le> 4300"
    using \<open>k < 10 ^ 4300\<close> by (rule length_str_nat)
  then show ?thesis by (simp only: MAX_STR_DIGITS_def)
qed

lemma parse_part_token:
  "parse_part N t =
     (case token_indices N t of None \<Rightarrow> Inl (token_error t) | Some S \<Rightarrow> Inr S)"
proof (cases "45 \<in> set t")
  case False
  then show ?thesis
    by (auto simp: parse_part_def token_indices_def token_error_def split_on_notin
        split: option.splits)
next
  case True
  from split_on_in [OF True] obtain a b rest where s: "split_on 45 t = a # b # rest"
    by blast
  show ?thesis
  proof (cases rest)
    case Nil
    with s True show ?thesis
      by (auto simp: parse_part_def token_indices_def token_error_def split: option.splits)
  next
    case (Cons r rs)
    with s True show ?thesis
      by (auto simp: parse_part_def token_indices_def token_error_def
          split: option.splits list.splits)
  qed
qed

lemma parse_parts_tokens:
  "parse_parts N ps acc =
     (case find (\<lambda>t. token_indices N t = None) (filter (\<lambda>t. t \<noteq> []) ps) of
        Some t \<Rightarrow> Inl (token_error t)
      | None \<Rightarrow> Inr (acc \<union> (\<Union>t \<in> set (filter (\<lambda>t. t \<noteq> []) ps). token_set N t)))"
proof (induction ps arbitrary: acc)
  case Nil
  then show ?case by simp
next
  case (Cons p ps)
  show ?case
  proof (cases "p = []")
    case True
    then show ?thesis using Cons by (simp split: option.splits)
  next
    case False
    then show ?thesis
      using Cons
      by (cases "token_indices N p")
        (auto simp: parse_part_token token_set_def split: option.splits)
  qed
qed

lemma token_set_bounds: "i \<in> token_set N t \<Longrightarrow> 0 \<le> i \<and> i < int N"
  by (auto simp: token_set_def token_indices_def split: option.splits list.splits if_splits)

lemma finite_token_set: "finite (token_set N t)"
  by (auto simp: token_set_def token_indices_def split: option.splits list.splits if_splits)

lemmas eval_defs = parse_selection_def parse_part_def py_int_def digit_of_def DIGIT_ZEROS_def
  int_space_def py_isspace_def MAX_STR_DIGITS_def cp_def



lemma hyphen_notin_numeral: "decimal_numeral t \<Longrightarrow> 45 \<notin> set t"
  by (auto simp: decimal_numeral_def ascii_digits_def)

lemma py_int_numeral:
  "decimal_numeral t \<Longrightarrow>
     py_int t = (if length t \<le> MAX_STR_DIGITS then Some (decimal_value t) else None)"
  using py_int_ascii_digits [of t] by (simp add: decimal_numeral_def decimal_value_def)

lemma token_indices_numeral:
  assumes "decimal_numeral t"
  shows "token_indices N t =
     (if length t \<le> MAX_STR_DIGITS \<and> 1 \<le> decimal_value t \<and> decimal_value t \<le> int N
      then Some {decimal_value t - 1} else None)"
  by (simp add: token_indices_def split_on_notin [OF hyphen_notin_numeral [OF assms]]
      py_int_numeral [OF assms])

lemma token_indices_numeral_range:
  assumes "decimal_numeral a" and "decimal_numeral b"
  shows "token_indices N (a @ [45] @ b) =
     (if length a \<le> MAX_STR_DIGITS \<and> length b \<le> MAX_STR_DIGITS \<and>
         1 \<le> decimal_value a \<and> decimal_value a \<le> decimal_value b \<and> decimal_value b \<le> int N
      then Some {decimal_value a - 1 .. decimal_value b - 1} else None)"
  by (simp add: token_indices_def split_on_append_sep [OF hyphen_notin_numeral [OF assms(1)]]
      split_on_notin [OF hyphen_notin_numeral [OF assms(2)]]
      py_int_numeral [OF assms(1)] py_int_numeral [OF assms(2)])

lemma str_nat_numeral: "decimal_numeral (str_nat k) \<and> decimal_value (str_nat k) = int k"
  by (simp add: decimal_numeral_def decimal_value_def str_nat_digits str_nat_not_Nil
      str_nat_value)

lemma decimal_value_zeros: "foldl (\<lambda>a c. 10 * a + (int c - 48)) 0 (replicate n 48) = 0"
  by (induction n) simp_all

lemma parse_selection_single_token:
  assumes "t \<noteq> []" and "32 \<notin> set t" and "44 \<notin> set t"
  shows "parse_selection t N =
     (case token_indices N t of
        None \<Rightarrow> Inl (token_error t)
      | Some S \<Rightarrow> Inr (sorted_list_of_set S))"
proof -
  from assms(2) have "filter (\<lambda>c. c \<noteq> 32) t = t"
    by (simp add: filter_id_conv) metis
  with assms(1,3) show ?thesis
    by (simp add: parse_selection_def split_on_notin parse_part_token split: option.splits)
qed

text \<open>
  C3. \<open>parse_selection\<close> follows the selector grammar: it fails with the first malformed
  token, named in the error, and returns nothing else then; otherwise it returns the indices
  of all tokens together, sorted, without duplicates and within \<open>0..<N\<close>. A decimal
  numeral of at most 4300 digits is accepted exactly when its value lies in \<open>1..N\<close>, a
  range of two such numerals exactly when \<open>1 \<le> a \<le> b \<le> N\<close>, and they denote the indices
  \<open>value - 1\<close> and \<open>a - 1 .. b - 1\<close>; a numeral of more than 4300 digits is refused, which
  cannot happen to the usual writing of a number up to \<open>N\<close> when \<open>N < 10 ^ 4300\<close>. A token
  with a character that is neither a digit, white space, a sign, an underscore nor the hyphen
  is refused. The four selectors of the specification come out as stated there, and so do
  selectors with numbers of two digits.
\<close>

theorem parse_selection_spec:
  "parse_selection s N =
     (case find (\<lambda>t. token_indices N t = None) (selector_tokens s) of
        Some t \<Rightarrow> Inl (token_error t)
      | None \<Rightarrow> Inr (sorted_list_of_set (\<Union>t \<in> set (selector_tokens s). token_set N t))) \<and>
   (\<forall>xs. parse_selection s N = Inr xs \<longrightarrow>
      sorted xs \<and> distinct xs \<and> set xs \<subseteq> {0 ..< int N}) \<and>
   (\<forall>t. decimal_numeral t \<longrightarrow>
      token_indices N t =
        (if length t \<le> 4300 \<and> 1 \<le> decimal_value t \<and> decimal_value t \<le> int N
         then Some {decimal_value t - 1} else None)) \<and>
   (\<forall>a b. decimal_numeral a \<and> decimal_numeral b \<longrightarrow>
      token_indices N (a @ [45] @ b) =
        (if length a \<le> 4300 \<and> length b \<le> 4300 \<and> 1 \<le> decimal_value a \<and>
            decimal_value a \<le> decimal_value b \<and> decimal_value b \<le> int N
         then Some {decimal_value a - 1 .. decimal_value b - 1} else None)) \<and>
   (\<forall>t c. c \<in> set t \<and> \<not> numeral_char c \<longrightarrow> token_indices N t = None) \<and>
   (\<forall>k. decimal_numeral (str_nat k) \<and> decimal_value (str_nat k) = int k \<and>
      (k \<le> N \<and> N < 10 ^ 4300 \<longrightarrow> length (str_nat k) \<le> 4300)) \<and>
   parse_selection (cp ''1,3-5,7'') 10 = Inr [0, 2, 3, 4, 6] \<and>
   parse_selection (cp ''0'') 5 = Inl (BadNumber (cp ''0'')) \<and>
   (\<forall>M. parse_selection (cp ''3-2'') M = Inl (BadRange (cp ''3-2''))) \<and>
   (\<forall>M\<ge>3. parse_selection (cp ''1, 3'') M = Inr [0, 2]) \<and>
   parse_selection (cp ''10'') 10 = Inr [9] \<and>
   parse_selection (cp ''11'') 10 = Inl (BadNumber (cp ''11'')) \<and>
   parse_selection (cp ''9-12'') 12 = Inr [8, 9, 10, 11] \<and>
   parse_selection (cp ''1,x'') 5 = Inl (BadNumber (cp ''x''))"
proof -
  let ?S = "\<Union>t \<in> set (selector_tokens s). token_set N t"
  have eq: "parse_selection s N =
     (case find (\<lambda>t. token_indices N t = None) (selector_tokens s) of
        Some t \<Rightarrow> Inl (token_error t)
      | None \<Rightarrow> Inr (sorted_list_of_set ?S))"
    by (simp add: parse_selection_def parse_parts_tokens selector_tokens_def
        split: option.splits)
  have fin: "finite ?S"
    by (simp add: finite_token_set)
  have bounds: "?S \<subseteq> {0 ..< int N}"
    using token_set_bounds by fastforce
  have shape: "\<forall>xs. parse_selection s N = Inr xs \<longrightarrow>
      sorted xs \<and> distinct xs \<and> set xs \<subseteq> {0 ..< int N}"
  proof (intro allI impI)
    fix xs
    assume "parse_selection s N = Inr xs"
    with eq have "xs = sorted_list_of_set ?S"
      by (simp split: option.splits)
    with fin bounds show "sorted xs \<and> distinct xs \<and> set xs \<subseteq> {0 ..< int N}" by simp
  qed
  have single: "\<forall>t. decimal_numeral t \<longrightarrow>
      token_indices N t =
        (if length t \<le> 4300 \<and> 1 \<le> decimal_value t \<and> decimal_value t \<le> int N
         then Some {decimal_value t - 1} else None)"
    using token_indices_numeral [of _ N] by (simp only: MAX_STR_DIGITS_def) blast
  have range: "\<forall>a b. decimal_numeral a \<and> decimal_numeral b \<longrightarrow>
      token_indices N (a @ [45] @ b) =
        (if length a \<le> 4300 \<and> length b \<le> 4300 \<and> 1 \<le> decimal_value a \<and>
            decimal_value a \<le> decimal_value b \<and> decimal_value b \<le> int N
         then Some {decimal_value a - 1 .. decimal_value b - 1} else None)"
    using token_indices_numeral_range [of _ _ N] by (simp only: MAX_STR_DIGITS_def) blast
  have other: "\<forall>t c. c \<in> set t \<and> \<not> numeral_char c \<longrightarrow> token_indices N t = None"
    using token_indices_non_numeric by blast
  have canon: "\<forall>k. decimal_numeral (str_nat k) \<and> decimal_value (str_nat k) = int k \<and>
      (k \<le> N \<and> N < 10 ^ 4300 \<longrightarrow> length (str_nat k) \<le> 4300)"
  proof (intro allI conjI impI)
    fix k
    show "decimal_numeral (str_nat k)" "decimal_value (str_nat k) = int k"
      using str_nat_numeral [of k] by blast+
    assume "k \<le> N \<and> N < 10 ^ 4300"
    then have "length (str_nat k) \<le> MAX_STR_DIGITS"
      using str_nat_within_limit [of k N] by blast
    then show "length (str_nat k) \<le> 4300"
      by (simp only: MAX_STR_DIGITS_def)
  qed
  have e1: "parse_selection (cp ''1,3-5,7'') 10 = Inr [0, 2, 3, 4, 6]"
  proof -
    have "parse_parts 10 (split_on 44 (filter (\<lambda>c. c \<noteq> 32) (cp ''1,3-5,7''))) {} =
        Inr (set [0, 2, 3, 4, 6])"
      by (simp add: eval_defs upto_rec_numeral) auto
    moreover have "sorted_list_of_set (set [0, 2, 3, 4, 6 :: int]) = [0, 2, 3, 4, 6]"
      by (rule sorted_list_of_set.idem_if_sorted_distinct) simp_all
    ultimately show ?thesis
      by (simp only: parse_selection_def sum.case)
  qed
  have e2: "parse_selection (cp ''0'') 5 = Inl (BadNumber (cp ''0''))"
    by (simp add: eval_defs)
  have e3: "\<forall>M. parse_selection (cp ''3-2'') M = Inl (BadRange (cp ''3-2''))"
    by (simp add: eval_defs)
  have e4: "\<forall>M\<ge>3. parse_selection (cp ''1, 3'') M = Inr [0, 2]"
    by (simp add: eval_defs)
  have e5: "parse_selection (cp ''10'') 10 = Inr [9]"
    by (simp add: eval_defs)
  have e6: "parse_selection (cp ''11'') 10 = Inl (BadNumber (cp ''11''))"
    by (simp add: eval_defs)
  have e7: "parse_selection (cp ''9-12'') 12 = Inr [8, 9, 10, 11]"
  proof -
    have "parse_parts 12 (split_on 44 (filter (\<lambda>c. c \<noteq> 32) (cp ''9-12''))) {} =
        Inr (set [8, 9, 10, 11])"
      by (simp add: eval_defs upto_rec_numeral)
    moreover have "sorted_list_of_set (set [8, 9, 10, 11 :: int]) = [8, 9, 10, 11]"
      by (rule sorted_list_of_set.idem_if_sorted_distinct) simp_all
    ultimately show ?thesis
      by (simp only: parse_selection_def sum.case)
  qed
  have e8: "parse_selection (cp ''1,x'') 5 = Inl (BadNumber (cp ''x''))"
    by (simp add: eval_defs)
  from eq shape single range other canon e1 e2 e3 e4 e5 e6 e7 e8 show ?thesis
    by (intro conjI)
qed

theorem parse_selection_spec_witness:
  "parse_selection (cp ''2-4, 2,12'') 12 = Inr [1, 2, 3, 11] \<and>
   sorted [1, 2, 3, 11 :: int] \<and> distinct [1, 2, 3, 11 :: int] \<and>
   set [1, 2, 3, 11 :: int] \<subseteq> {0 ..< int 12} \<and>
   decimal_numeral (cp ''12'') \<and> decimal_value (cp ''12'') = 12 \<and>
   token_indices 12 (cp ''12'') = Some {11} \<and>
   decimal_numeral (cp ''9'') \<and> decimal_value (cp ''9'') = 9 \<and>
   token_indices 12 (cp ''9-12'') = Some {8 .. 11} \<and>
   token_indices 12 (cp ''13'') = None \<and>
   120 \<in> set (cp ''1x'') \<and> \<not> numeral_char 120 \<and> token_indices 12 (cp ''1x'') = None \<and>
   (12::nat) \<le> 12 \<and> (12::nat) < 10 ^ 4300 \<and> length (str_nat 12) \<le> 4300 \<and>
   parse_selection (cp ''1, 3'') 3 = Inr [0, 2] \<and>
   find (\<lambda>t. token_indices 4 t = None) (selector_tokens (cp ''1,4-5,x'')) = Some (cp ''4-5'') \<and>
   parse_selection (cp ''1,4-5,x'') 4 = Inl (BadRange (cp ''4-5''))"
proof -
  note spec = parse_selection_spec [of "cp ''2-4, 2,12''" 12]
  have e: "parse_selection (cp ''2-4, 2,12'') 12 = Inr [1, 2, 3, 11]"
  proof -
    have "parse_parts 12 (split_on 44 (filter (\<lambda>c. c \<noteq> 32) (cp ''2-4, 2,12''))) {} =
        Inr (set [1, 2, 3, 11])"
      by (simp add: eval_defs upto_rec_numeral) auto
    moreover have "sorted_list_of_set (set [1, 2, 3, 11 :: int]) = [1, 2, 3, 11]"
      by (rule sorted_list_of_set.idem_if_sorted_distinct) simp_all
    ultimately show ?thesis
      by (simp only: parse_selection_def sum.case)
  qed
  from spec e
  have a: "sorted [1, 2, 3, 11 :: int] \<and> distinct [1, 2, 3, 11 :: int] \<and>
      set [1, 2, 3, 11 :: int] \<subseteq> {0 ..< int 12}"
    by blast
  have n12: "decimal_numeral (cp ''12'')" and v12: "decimal_value (cp ''12'') = 12"
    and n13: "decimal_numeral (cp ''13'')" and v13: "decimal_value (cp ''13'') = 13"
    and n9: "decimal_numeral (cp ''9'')" and v9: "decimal_value (cp ''9'') = 9"
    by (simp_all add: decimal_numeral_def ascii_digits_def decimal_value_def cp_def)
  from spec n12 have "token_indices 12 (cp ''12'') =
      (if length (cp ''12'') \<le> 4300 \<and> 1 \<le> decimal_value (cp ''12'') \<and>
          decimal_value (cp ''12'') \<le> int 12
       then Some {decimal_value (cp ''12'') - 1} else None)"
    by blast
  then have t12: "token_indices 12 (cp ''12'') = Some {11}"
    by (simp add: v12) (simp add: cp_def)
  from spec n13 have "token_indices 12 (cp ''13'') =
      (if length (cp ''13'') \<le> 4300 \<and> 1 \<le> decimal_value (cp ''13'') \<and>
          decimal_value (cp ''13'') \<le> int 12
       then Some {decimal_value (cp ''13'') - 1} else None)"
    by blast
  then have t13: "token_indices 12 (cp ''13'') = None"
    by (simp add: v13)
  from spec n9 n12 have "token_indices 12 (cp ''9'' @ [45] @ cp ''12'') =
      (if length (cp ''9'') \<le> 4300 \<and> length (cp ''12'') \<le> 4300 \<and>
          1 \<le> decimal_value (cp ''9'') \<and> decimal_value (cp ''9'') \<le> decimal_value (cp ''12'') \<and>
          decimal_value (cp ''12'') \<le> int 12
       then Some {decimal_value (cp ''9'') - 1 .. decimal_value (cp ''12'') - 1} else None)"
    by blast
  moreover have "cp ''9'' @ [45] @ cp ''12'' = cp ''9-12''"
    by (simp add: cp_def)
  ultimately have r: "token_indices 12 (cp ''9-12'') = Some {8 .. 11}"
    by (simp add: v9 v12) (simp add: cp_def)
  have x: "120 \<in> set (cp ''1x'')" and nx: "\<not> numeral_char 120"
    by (simp_all add: cp_def numeral_char_def digit_of_def DIGIT_ZEROS_def int_space_def
        py_isspace_def)
  from spec x nx have tx: "token_indices 12 (cp ''1x'') = None"
    by blast
  have lim: "(12::nat) \<le> 12 \<and> (12::nat) < 10 ^ 4300"
  proof
    show "(12::nat) \<le> 12" by simp
    have "(12::nat) < 10 ^ 2" by simp
    also have "(10::nat) ^ 2 \<le> 10 ^ 4300" by (rule power_increasing) simp_all
    finally show "(12::nat) < 10 ^ 4300" .
  qed
  with spec have len: "length (str_nat 12) \<le> 4300"
    by blast
  from parse_selection_spec [of "[]" 0]
  have "\<forall>M\<ge>3. parse_selection (cp ''1, 3'') M = Inr [0, 2]"
    by blast
  then have b: "parse_selection (cp ''1, 3'') 3 = Inr [0, 2]"
    by simp
  have f: "find (\<lambda>t. token_indices 4 t = None) (selector_tokens (cp ''1,4-5,x'')) =
      Some (cp ''4-5'')"
    by (simp add: selector_tokens_def token_indices_def eval_defs)
  have t: "token_error (cp ''4-5'') = BadRange (cp ''4-5'')"
    by (simp add: token_error_def cp_def)
  have "parse_selection (cp ''1,4-5,x'') 4 =
      (case find (\<lambda>t. token_indices 4 t = None) (selector_tokens (cp ''1,4-5,x'')) of
         Some t \<Rightarrow> Inl (token_error t)
       | None \<Rightarrow>
           Inr (sorted_list_of_set
             (\<Union>t \<in> set (selector_tokens (cp ''1,4-5,x'')). token_set 4 t)))"
    using parse_selection_spec [of "cp ''1,4-5,x''" 4] by (rule conjunct1)
  then have c: "parse_selection (cp ''1,4-5,x'') 4 = Inl (BadRange (cp ''4-5''))"
    by (simp only: f t option.case)
  from e a n12 v12 t12 n9 v9 r t13 x nx tx lim len b c f show ?thesis
    by blast
qed

text \<open>
  The numeral \<open>0...01\<close> of 4301 digits writes the number 1, which is within \<open>1..5\<close>, and
  \<open>parse_selection\<close> refuses it: \<open>int\<close> raises \<open>ValueError\<close> on more than 4300 digits.
\<close>

theorem parse_selection_long_numeral_refused:
  "decimal_numeral (replicate 4300 48 @ [49]) \<and>
   decimal_value (replicate 4300 48 @ [49]) = 1 \<and>
   parse_selection (replicate 4300 48 @ [49]) 5 =
     Inl (BadNumber (replicate 4300 48 @ [49]))"
proof -
  let ?t = "replicate 4300 48 @ [49 :: nat]"
  have num: "decimal_numeral ?t"
    by (simp add: decimal_numeral_def ascii_digits_def)
  have val: "decimal_value ?t = 1"
    by (simp add: decimal_value_def decimal_value_zeros)
  have len: "length ?t = 4301"
    by simp
  have ti: "token_indices 5 ?t = None"
    by (simp only: token_indices_numeral [OF num] len MAX_STR_DIGITS_def) simp
  have te: "token_error ?t = BadNumber ?t"
    by (simp add: token_error_def)
  have "?t \<noteq> []" "32 \<notin> set ?t" "44 \<notin> set ?t"
    by simp_all
  then have "parse_selection ?t 5 =
      (case token_indices 5 ?t of
         None \<Rightarrow> Inl (token_error ?t)
       | Some S \<Rightarrow> Inr (sorted_list_of_set S))"
    by (rule parse_selection_single_token)
  then have "parse_selection ?t 5 = Inl (BadNumber ?t)"
    by (simp only: ti te option.case)
  with num val show ?thesis by (intro conjI)
qed


section \<open>Properties of the extraction pipeline\<close>

lemma index_step_refl: "index_step s s"
  by (simp add: index_step_def split: prod.splits)

lemma index_step_trans:
  assumes "index_step s s'" and "index_step s' s''"
  shows "index_step s s''"
proof -
  obtain w st g where s: "s = (w, st, g)" by (cases s) auto
  obtain w' st' g' where s': "s' = (w', st', g')" by (cases s') auto
  obtain w'' st'' g'' where s'': "s'' = (w'', st'', g'')" by (cases s'') auto
  let ?n = "success st' - success st" and ?m = "success st'' - success st'"
  from assms(1) s s' obtain rows where le1: "success st \<le> success st'"
    and g': "g' = g + int ?n"
    and r1: "all_csv w' = all_csv w @ rows"
    and i1: "map snd rows = map (\<lambda>k. g + int k) [0 ..< ?n]"
    by (auto simp: index_step_def)
  from assms(2) s' s'' obtain rows' where le2: "success st' \<le> success st''"
    and g'': "g'' = g' + int ?m"
    and r2: "all_csv w'' = all_csv w' @ rows'"
    and i2: "map snd rows' = map (\<lambda>k. g' + int k) [0 ..< ?m]"
    by (auto simp: index_step_def)
  from le1 le2 have nm: "success st'' - success st = ?n + ?m" by simp
  have "map (\<lambda>k. g' + int k) [0 ..< ?m] = map (\<lambda>k. g + int k) [?n ..< ?n + ?m]"
    by (rule nth_equalityI) (simp_all add: g')
  with i1 i2 have "map snd (rows @ rows') = map (\<lambda>k. g + int k) [0 ..< ?n + ?m]"
    using upt_add_eq_append [of 0 ?n ?m] by simp
  moreover from r1 r2 have "all_csv w'' = all_csv w @ (rows @ rows')" by simp
  ultimately have "\<exists>rs. all_csv w'' = all_csv w @ rs \<and>
      map snd rs = map (\<lambda>k. g + int k) [0 ..< success st'' - success st]"
    unfolding nm by blast
  with le1 le2 g' g'' nm show ?thesis
    by (simp add: index_step_def s s'')
qed

lemma process_pdf_step: "index_step (w, st, g) (process_pdf out f pdf (w, st, g))"
  by (cases out) (simp_all add: process_pdf_def index_step_def Let_def)

lemma process_pdfs_step: "index_step (w, st, g) (process_pdfs env f pdfs (w, st, g))"
proof (induction pdfs arbitrary: w st g)
  case Nil
  show ?case by (simp add: index_step_refl)
next
  case (Cons pdf pdfs)
  obtain w' st' g' where p: "process_pdf (env (attempts w)) f pdf (w, st, g) = (w', st', g')"
    by (cases "process_pdf (env (attempts w)) f pdf (w, st, g)") auto
  have "index_step (w, st, g) (w', st', g')"
    using process_pdf_step [of w st g "env (attempts w)" f pdf] p by simp
  moreover have "index_step (w', st', g') (process_pdfs env f pdfs (w', st', g'))"
    by (rule Cons.IH)
  ultimately show ?case
    using p by (simp add: index_step_trans)
qed

lemma process_folder_step:
  "index_step (w, \<lparr>success = 0, skip = 0, fail = 0\<rparr>, g) (process_folder env folder ow g w)"
proof -
  obtain tp sk where sel: "select_pdfs w (name folder) ow (pdf_files folder) = (tp, sk)"
    by (cases "select_pdfs w (name folder) ow (pdf_files folder)") auto
  have "index_step (w, \<lparr>success = 0, skip = sk, fail = 0\<rparr>, g)
          (process_pdfs env (name folder) tp (w, \<lparr>success = 0, skip = sk, fail = 0\<rparr>, g))"
    by (rule process_pdfs_step)
  then show ?thesis
    by (cases "tp = []") (simp_all add: process_folder_def sel index_step_def split: prod.splits)
qed

lemma run_selected_step:
  assumes "\<forall>idx \<in> set sel. idx < length folders"
  shows "\<exists>s'. run_selected env folders ow sel (w, tot, g) = Inr s' \<and> index_step (w, tot, g) s'"
  using assms
proof (induction sel arbitrary: w tot g)
  case Nil
  show ?case by (simp add: index_step_refl)
next
  case (Cons idx sel)
  then have idx: "idx < length folders" and rest: "\<forall>i \<in> set sel. i < length folders"
    by simp_all
  show ?case
  proof (cases "\<not> ow \<and> pending (folders ! idx) = 0")
    case True
    with idx Cons.IH [OF rest, of w tot g] show ?thesis by auto
  next
    case False
    obtain w' st g' where p: "process_folder env (folders ! idx) ow g w = (w', st, g')"
      by (cases "process_folder env (folders ! idx) ow g w") auto
    have "index_step (w, \<lparr>success = 0, skip = 0, fail = 0\<rparr>, g) (w', st, g')"
      using process_folder_step [of w g env "folders ! idx" ow] p by simp
    then have a: "index_step (w, tot, g) (w', add_stats tot st, g')"
      by (simp add: index_step_def add_stats_def)
    from Cons.IH [OF rest, of w' "add_stats tot st" g']
    obtain s' where r: "run_selected env folders ow sel (w', add_stats tot st, g') = Inr s'"
      and b: "index_step (w', add_stats tot st, g') s'" by blast
    from a b have "index_step (w, tot, g) s'" by (rule index_step_trans)
    with r p idx False show ?thesis by (cases s') auto
  qed
qed

text \<open>
  C1. A run over the selected buckets, in order, starts the global index at 1 and returns;
  the rows it appends to the combined table are one per success, and the \<open>k\<close>-th of them
  carries the index \<open>k\<close>; the counter ends at one more than the number of successes. One
  document advances the counter by one when it is persisted and not at all otherwise, and a
  bucket returns its starting index plus its own successes, which the next bucket starts
  from.
\<close>

theorem global_index_success_rank:
  assumes "\<forall>idx \<in> set selected_indices. idx < length folders"
  shows "(\<exists>w' total_stats rows.
            main_run env folders selected_indices overwrite w =
              Inr (w', total_stats, 1 + int (success total_stats)) \<and>
            all_csv w' = all_csv w @ rows \<and>
            length rows = success total_stats \<and>
            (\<forall>k < length rows. snd (rows ! k) = int k + 1)) \<and>
         (\<forall>out folder_name pdf w0 st g.
            snd (snd (process_pdf out folder_name pdf (w0, st, g))) =
              (if out = Persisted then g + 1 else g)) \<and>
         (\<forall>folder w0 g.
            snd (snd (process_folder env folder overwrite g w0)) =
              g + int (success (fst (snd (process_folder env folder overwrite g w0)))))"
proof -
  let ?zero = "\<lparr>success = 0, skip = 0, fail = 0\<rparr>"
  from run_selected_step [OF assms, of env overwrite w ?zero 1]
  obtain s' where r: "main_run env folders selected_indices overwrite w = Inr s'"
    and i: "index_step (w, ?zero, 1) s'"
    by (auto simp: main_run_def)
  obtain w' tot g' where s': "s' = (w', tot, g')" by (cases s') auto
  from i s' obtain rows where g': "g' = 1 + int (success tot)"
    and rows: "all_csv w' = all_csv w @ rows"
    and idx: "map snd rows = map (\<lambda>k. 1 + int k) [0 ..< success tot]"
    by (auto simp: index_step_def)
  from idx have len: "length rows = success tot"
    using length_map [of snd rows] by simp
  have nth: "snd (rows ! k) = int k + 1" if "k < length rows" for k
  proof -
    from that have "snd (rows ! k) = map snd rows ! k" by simp
    also from that len have "\<dots> = 1 + int k" unfolding idx by simp
    finally show ?thesis by simp
  qed
  have a: "\<exists>w' total_stats rows.
            main_run env folders selected_indices overwrite w =
              Inr (w', total_stats, 1 + int (success total_stats)) \<and>
            all_csv w' = all_csv w @ rows \<and>
            length rows = success total_stats \<and>
            (\<forall>k < length rows. snd (rows ! k) = int k + 1)"
    using r s' g' rows len nth by blast
  have b: "snd (snd (process_pdf out folder_name pdf (w0, st, g))) =
              (if out = Persisted then g + 1 else g)" for out folder_name pdf w0 st g
    by (cases out) (simp_all add: process_pdf_def Let_def)
  have c: "snd (snd (process_folder env folder overwrite g w0)) =
              g + int (success (fst (snd (process_folder env folder overwrite g w0))))"
    for folder w0 g
    using process_folder_step [of w0 g env folder overwrite]
    by (cases "process_folder env folder overwrite g w0") (simp add: index_step_def)
  from a b c show ?thesis by blast
qed

theorem global_index_success_rank_witness:
  "main_run (\<lambda>n. if n = 1 then JsonDecodeError else Persisted)
     [\<lparr>name = cp ''A'', total_pdfs = 2, processed = 0, pending = 2,
        pdf_files = [cp ''01_a.pdf'', cp ''02_b.pdf'']\<rparr>,
      \<lparr>name = cp ''B'', total_pdfs = 1, processed = 1, pending = 0,
        pdf_files = [cp ''01_x.pdf'']\<rparr>,
      \<lparr>name = cp ''C'', total_pdfs = 1, processed = 0, pending = 1,
        pdf_files = [cp ''01_c.pdf'']\<rparr>]
     [0, 1, 2] False
     \<lparr>artifacts = {(cp ''B'', cp ''01_x'')}, all_csv = [], llm_calls = [], attempts = 0\<rparr> =
   Inr (\<lparr>artifacts = {(cp ''C'', cp ''01_c''), (cp ''A'', cp ''01_a''), (cp ''B'', cp ''01_x'')},
         all_csv = [((cp ''A'', cp ''01_a.pdf''), 1), ((cp ''C'', cp ''01_c.pdf''), 2)],
         llm_calls = [(cp ''A'', cp ''01_a.pdf''), (cp ''A'', cp ''02_b.pdf''),
                      (cp ''C'', cp ''01_c.pdf'')],
         attempts = 3\<rparr>,
        \<lparr>success = 2, skip = 0, fail = 1\<rparr>, 3)"
proof -
  let ?fs = "[\<lparr>name = cp ''A'', total_pdfs = 2, processed = 0, pending = 2,
        pdf_files = [cp ''01_a.pdf'', cp ''02_b.pdf'']\<rparr>,
      \<lparr>name = cp ''B'', total_pdfs = 1, processed = 1, pending = 0,
        pdf_files = [cp ''01_x.pdf'']\<rparr>,
      \<lparr>name = cp ''C'', total_pdfs = 1, processed = 0, pending = 1,
        pdf_files = [cp ''01_c.pdf'']\<rparr>]"
  have h: "\<forall>idx \<in> set [0, 1, 2]. idx < length ?fs"
    by simp
  have e: ?thesis
    by code_simp
  from global_index_success_rank [OF h] e show ?thesis
    by blast
qed

lemma select_pdfs_all_exist:
  assumes "\<forall>pdf \<in> set pdfs. json_exists w folder_name pdf"
  shows "select_pdfs w folder_name False pdfs = ([], length pdfs)"
  using assms by (induction pdfs) simp_all

text \<open>
  C2. When every document of a bucket has its artifact and \<open>overwrite\<close> is false,
  \<open>process_folder\<close> leaves the state as it is (no document attempted, no inference call),
  reports no success, no failure and a skip count equal to the bucket's total, and returns the
  global index it was given. The total of a bucket is the number of its documents, as in
  every \<open>FolderStatus\<close> that the scan builds (\<open>scan_bucket_fields\<close>).
\<close>

theorem process_folder_idempotent:
  assumes "\<forall>pdf \<in> set (pdf_files folder). json_exists w (name folder) pdf"
    and "total_pdfs folder = length (pdf_files folder)"
  shows "process_folder env folder False global_index_start w =
           (w, \<lparr>success = 0, skip = total_pdfs folder, fail = 0\<rparr>, global_index_start)"
  by (simp add: process_folder_def select_pdfs_all_exist [OF assms(1)] assms(2))

theorem process_folder_idempotent_witness:
  "process_folder (\<lambda>n. Persisted)
     \<lparr>name = cp ''B'', total_pdfs = 2, processed = 2, pending = 0,
      pdf_files = [cp ''01_x.pdf'', cp ''02_y.PDF'']\<rparr>
     False 5
     \<lparr>artifacts = {(cp ''B'', cp ''01_x''), (cp ''B'', cp ''02_y'')}, all_csv = [],
      llm_calls = [], attempts = 0\<rparr> =
   (\<lparr>artifacts = {(cp ''B'', cp ''01_x''), (cp ''B'', cp ''02_y'')}, all_csv = [],
      llm_calls = [], attempts = 0\<rparr>,
    \<lparr>success = 0, skip = 2, fail = 0\<rparr>, 5)"
proof -
  let ?w = "\<lparr>artifacts = {(cp ''B'', cp ''01_x''), (cp ''B'', cp ''02_y'')}, all_csv = [],
      llm_calls = [], attempts = 0\<rparr>"
  let ?f = "\<lparr>name = cp ''B'', total_pdfs = 2, processed = 2, pending = 0,
      pdf_files = [cp ''01_x.pdf'', cp ''02_y.PDF'']\<rparr>"
  have h: "\<forall>pdf \<in> set (pdf_files ?f). json_exists ?w (name ?f) pdf"
    by (simp add: json_exists_def path_stem_def cp_def)
  have t: "total_pdfs ?f = length (pdf_files ?f)"
    by simp
  from process_folder_idempotent [OF h t, of "\<lambda>n. Persisted" 5] show ?thesis
    by simp
qed


section \<open>Properties of the catalogue\<close>

text \<open>
  C4. The catalogue is meant to take the headings of exactly one level. On a document with
  a heading of that level, a deeper heading, a line of text and a heading with no space after
  the marker, \<open>parse_theme_buckets\<close> returns three names: the deeper heading is taken too,
  with its third heading character as the start of the name, and so is the heading without
  a space.
\<close>

theorem parse_theme_buckets_deeper_heading:
  "parse_theme_buckets (cp ''## A'' @ [10] @ cp ''### B'' @ [10] @ cp ''text'' @ [10] @ cp ''##C'') =
     [cp ''A'', cp ''# B'', cp ''C'']"
  by (simp add: parse_theme_buckets_def theme_of_line_def startswith_def py_strip_def
      py_isspace_def cp_def)


section \<open>Properties of the scan\<close>

lemma update_fresh: "k \<notin> fst ` set al \<Longrightarrow> AList.update k v al = al @ [(k, v)]"
  by (induction al) auto

lemma bucket_entry_keys: "fst ` set (bucket_entry js e) \<subseteq> {fst e}"
  by (auto simp: bucket_entry_def split: prod.splits entry_kind.splits if_splits)

lemma scan_items_eq:
  assumes "distinct (map fst root_dir)" and "fst ` set root_dir \<inter> fst ` set folders = {}"
  shows "scan_items js root_dir (folders, root_pdfs) =
           (folders @ concat (map (bucket_entry js) root_dir),
            root_pdfs @ concat (map stray_entry root_dir))"
  using assms
proof (induction root_dir arbitrary: folders root_pdfs)
  case Nil
  show ?case by simp
next
  case (Cons e root_dir)
  obtain item kind where e: "e = (item, kind)" by (cases e) auto
  from Cons.prems e have d: "distinct (map fst root_dir)" and fresh: "item \<notin> fst ` set folders"
    and notin: "item \<notin> fst ` set root_dir"
    and disj: "fst ` set root_dir \<inter> fst ` set folders = {}"
    by auto
  show ?case
  proof (cases kind)
    case RegularFile
    with e Cons.IH [OF d disj] show ?thesis
      by (simp add: bucket_entry_def stray_entry_def)
  next
    case OtherEntry
    with e Cons.IH [OF d disj] show ?thesis
      by (simp add: bucket_entry_def stray_entry_def)
  next
    case (Directory children)
    show ?thesis
    proof (cases "folder_pdfs children = []")
      case True
      with e Directory Cons.IH [OF d disj] show ?thesis
        by (simp add: bucket_entry_def stray_entry_def)
    next
      case False
      let ?fs = "folders @ [(item, folder_status js item (folder_pdfs children))]"
      from disj notin have "fst ` set root_dir \<inter> fst ` set ?fs = {}"
        by auto
      from Cons.IH [OF d this] e Directory False fresh show ?thesis
        by (simp add: bucket_entry_def stray_entry_def update_fresh)
    qed
  qed
qed

lemma scan_folders_eq:
  assumes "distinct (map fst root_dir)"
  shows "scan_folders js root_dir =
           (sort_key name (map snd (concat (map (bucket_entry js) root_dir))),
            concat (map stray_entry root_dir))"
  using scan_items_eq [OF assms, of "[]" js "[]"] by (simp add: scan_folders_def)

lemma count_processed_sum:
  "count_processed js f pdfs (a, b) = (a', b') \<Longrightarrow> a' + b' = a + b + length pdfs"
  by (induction pdfs arbitrary: a b) (auto split: if_splits)

lemma folder_status_fields:
  "name (folder_status js item files) = item \<and>
   pdf_files (folder_status js item files) = files \<and>
   total_pdfs (folder_status js item files) = length files \<and>
   processed (folder_status js item files) + pending (folder_status js item files) = length files"
proof -
  obtain a b where c: "count_processed js item files (0, 0) = (a, b)"
    by (cases "count_processed js item files (0, 0)") auto
  from count_processed_sum [OF c] c show ?thesis
    by (simp add: folder_status_def)
qed

lemma set_folder_pdfs:
  "set (folder_pdfs children) = {f. (f, True) \<in> set children \<and> is_pdf_name f}"
proof -
  have "set (folder_pdfs children) =
      fst ` {e \<in> set children. case e of (f, is_file) \<Rightarrow> is_file \<and> is_pdf_name f}"
    by (simp add: folder_pdfs_def)
  also have "\<dots> = {f. (f, True) \<in> set children \<and> is_pdf_name f}"
    by force
  finally show ?thesis .
qed

lemma folder_pdfs_nonempty:
  "folder_pdfs children \<noteq> [] \<longleftrightarrow> (\<exists>f. (f, True) \<in> set children \<and> is_pdf_name f)"
proof -
  have "folder_pdfs children \<noteq> [] \<longleftrightarrow> set (folder_pdfs children) \<noteq> {}"
    by simp
  then show ?thesis
    unfolding set_folder_pdfs by blast
qed

lemma bucket_entry_mem:
  "(n, fs) \<in> set (concat (map (bucket_entry js) root_dir)) \<longleftrightarrow>
     (\<exists>children. (n, Directory children) \<in> set root_dir \<and> folder_pdfs children \<noteq> [] \<and>
        fs = folder_status js n (folder_pdfs children))"
  by (auto simp: bucket_entry_def split: prod.splits entry_kind.splits if_splits)

lemma stray_entry_eq:
  "concat (map stray_entry root_dir) =
     map fst (filter (\<lambda>(item, kind). kind = RegularFile \<and> is_pdf_name item) root_dir)"
  by (induction root_dir) (auto simp: stray_entry_def split: entry_kind.splits if_splits)

lemma bucket_entry_fst:
  "map fst (bucket_entry js e) = [] \<or> map fst (bucket_entry js e) = [fst e]"
  by (cases e) (simp add: bucket_entry_def split: entry_kind.splits)

lemma bucket_keys_subset: "(n, fs) \<in> set (concat (map (bucket_entry js) root_dir)) \<Longrightarrow> n \<in> fst ` set root_dir"
  unfolding bucket_entry_mem by force

lemma bucket_names_distinct:
  "distinct (map fst root_dir) \<Longrightarrow> distinct (map fst (concat (map (bucket_entry js) root_dir)))"
proof (induction root_dir)
  case Nil
  show ?case by simp
next
  case (Cons e root_dir)
  then have d: "distinct (map fst (concat (map (bucket_entry js) root_dir)))"
    and fresh: "fst e \<notin> fst ` set root_dir"
    by simp_all
  have notin: "fst e \<notin> set (map fst (concat (map (bucket_entry js) root_dir)))"
  proof
    assume "fst e \<in> set (map fst (concat (map (bucket_entry js) root_dir)))"
    then obtain fs where "(fst e, fs) \<in> set (concat (map (bucket_entry js) root_dir))"
      by (metis (no_types, lifting) imageE prod.collapse set_map)
    from bucket_keys_subset [OF this] fresh show False by contradiction
  qed
  from bucket_entry_fst [of js e] show ?case
  proof
    assume "map fst (bucket_entry js e) = []"
    with d show ?thesis by simp
  next
    assume "map fst (bucket_entry js e) = [fst e]"
    with d notin show ?thesis by simp
  qed
qed

lemma bucket_entry_name:
  "(n, fs) \<in> set (concat (map (bucket_entry js) root_dir)) \<Longrightarrow> name fs = n"
  unfolding bucket_entry_mem by (auto simp: folder_status_fields)

lemma sorted_names: "sorted (map name (sort_key name fs))"
  by (rule sorted_sort_key)

lemma distinct_names:
  assumes "distinct (map name fs)"
  shows "distinct (map name (sort_key name fs))"
proof -
  have "mset (map name (sort_key name fs)) = mset (map name fs)"
    by simp
  with assms show ?thesis
    by (metis mset_eq_imp_distinct_iff)
qed

lemma bucket_names_eq:
  "map name (map snd (concat (map (bucket_entry js) root_dir))) =
     map fst (concat (map (bucket_entry js) root_dir))"
proof -
  have "name (snd x) = fst x" if "x \<in> set (concat (map (bucket_entry js) root_dir))" for x
    using that bucket_entry_name [of "fst x" "snd x" js root_dir] by simp
  then show ?thesis by simp
qed

lemma scan_bucket_names:
  assumes "distinct (map fst root_dir)"
  shows "set (map name (fst (scan_folders js root_dir))) =
           {item. \<exists>children. (item, Directory children) \<in> set root_dir \<and>
                   (\<exists>f. (f, True) \<in> set children \<and> is_pdf_name f)}"
proof -
  let ?bs = "concat (map (bucket_entry js) root_dir)"
  have "set (map name (fst (scan_folders js root_dir))) = set (map name (map snd ?bs))"
    by (simp only: scan_folders_eq [OF assms] fst_conv set_map set_sort)
  also have "\<dots> = set (map fst ?bs)"
    by (simp only: bucket_names_eq)
  finally have names: "set (map name (fst (scan_folders js root_dir))) = fst ` set ?bs"
    by simp
  show ?thesis
    unfolding names
  proof (intro set_eqI iffI)
    fix x
    assume "x \<in> fst ` set ?bs"
    then obtain fs where "(x, fs) \<in> set ?bs"
      by (metis (no_types, lifting) imageE prod.collapse)
    then obtain children where "(x, Directory children) \<in> set root_dir"
      and "folder_pdfs children \<noteq> []"
      unfolding bucket_entry_mem by blast
    then show "x \<in> {item. \<exists>children. (item, Directory children) \<in> set root_dir \<and>
                   (\<exists>f. (f, True) \<in> set children \<and> is_pdf_name f)}"
      unfolding folder_pdfs_nonempty by blast
  next
    fix x
    assume "x \<in> {item. \<exists>children. (item, Directory children) \<in> set root_dir \<and>
                   (\<exists>f. (f, True) \<in> set children \<and> is_pdf_name f)}"
    then obtain children where r: "(x, Directory children) \<in> set root_dir"
      and "\<exists>f. (f, True) \<in> set children \<and> is_pdf_name f"
      by blast
    then have "folder_pdfs children \<noteq> []"
      unfolding folder_pdfs_nonempty by blast
    with r have "(x, folder_status js x (folder_pdfs children)) \<in> set ?bs"
      unfolding bucket_entry_mem by blast
    then show "x \<in> fst ` set ?bs"
      by (rule rev_image_eqI) simp
  qed
qed

lemma scan_bucket_fields:
  assumes "distinct (map fst root_dir)" and "folder \<in> set (fst (scan_folders js root_dir))"
  shows "\<exists>children. (name folder, Directory children) \<in> set root_dir \<and>
              pdf_files folder = folder_pdfs children \<and>
              total_pdfs folder = length (pdf_files folder) \<and>
              processed folder + pending folder = total_pdfs folder"
proof -
  let ?bs = "concat (map (bucket_entry js) root_dir)"
  from assms have "folder \<in> snd ` set ?bs"
    by (simp add: scan_folders_eq)
  then obtain n where "(n, folder) \<in> set ?bs"
    by (metis (no_types, lifting) imageE prod.collapse)
  then obtain children where r: "(n, Directory children) \<in> set root_dir"
    and f: "folder = folder_status js n (folder_pdfs children)"
    unfolding bucket_entry_mem by blast
  from folder_status_fields [of js n "folder_pdfs children"] f
  have "name folder = n" and "pdf_files folder = folder_pdfs children"
    and "total_pdfs folder = length (pdf_files folder)"
    and "processed folder + pending folder = total_pdfs folder"
    by simp_all
  with r show ?thesis by blast
qed

lemma scan_strays:
  assumes "distinct (map fst root_dir)"
  shows "snd (scan_folders js root_dir) =
           map fst (filter (\<lambda>(item, kind). kind = RegularFile \<and> is_pdf_name item) root_dir)"
  by (simp add: scan_folders_eq [OF assms] stray_entry_eq)

text \<open>
  C8, as the code has it. The buckets are exactly the directories of the root that hold at
  least one regular file with the suffix \<open>.pdf\<close> (in any case of letters), sorted by name,
  each with its documents and counts; the stray documents are exactly the regular files of
  the root with that suffix, in the order of the listing, and none of them is a bucket. Other
  entries of the root are in neither list.
\<close>

theorem scan_folders_buckets_and_strays:
  assumes "distinct (map fst root_dir)"
  shows "set (map name (fst (scan_folders js root_dir))) =
           {item. \<exists>children. (item, Directory children) \<in> set root_dir \<and>
                   (\<exists>f. (f, True) \<in> set children \<and> is_pdf_name f)} \<and>
         sorted (map name (fst (scan_folders js root_dir))) \<and>
         distinct (map name (fst (scan_folders js root_dir))) \<and>
         (\<forall>folder \<in> set (fst (scan_folders js root_dir)).
            \<exists>children. (name folder, Directory children) \<in> set root_dir \<and>
              pdf_files folder = folder_pdfs children \<and>
              total_pdfs folder = length (pdf_files folder) \<and>
              processed folder + pending folder = total_pdfs folder) \<and>
         snd (scan_folders js root_dir) =
           map fst (filter (\<lambda>(item, kind). kind = RegularFile \<and> is_pdf_name item) root_dir) \<and>
         set (snd (scan_folders js root_dir)) \<inter> set (map name (fst (scan_folders js root_dir))) = {}"
proof -
  have b: "sorted (map name (fst (scan_folders js root_dir)))"
    by (simp add: scan_folders_eq [OF assms] sorted_names)
  have "distinct (map name (map snd (concat (map (bucket_entry js) root_dir))))"
    unfolding bucket_names_eq by (rule bucket_names_distinct [OF assms])
  then have "distinct (map name (sort_key name (map snd (concat (map (bucket_entry js) root_dir)))))"
    by (rule distinct_names)
  then have c: "distinct (map name (fst (scan_folders js root_dir)))"
    by (simp only: scan_folders_eq [OF assms] fst_conv)
  have f: "set (snd (scan_folders js root_dir)) \<inter> set (map name (fst (scan_folders js root_dir))) = {}"
  proof (rule ccontr)
    assume "set (snd (scan_folders js root_dir)) \<inter> set (map name (fst (scan_folders js root_dir))) \<noteq> {}"
    then obtain x where x1: "x \<in> set (snd (scan_folders js root_dir))"
      and x2: "x \<in> set (map name (fst (scan_folders js root_dir)))" by blast
    from x1 have r1: "(x, RegularFile) \<in> set root_dir"
      unfolding scan_strays [OF assms] by auto
    from x2 obtain children where r2: "(x, Directory children) \<in> set root_dir"
      unfolding scan_bucket_names [OF assms] by blast
    from eq_key_imp_eq_value [OF assms r1 r2] show False by simp
  qed
  from scan_bucket_names [OF assms] b c scan_bucket_fields [OF assms] scan_strays [OF assms] f
  show ?thesis by blast
qed

theorem scan_folders_buckets_and_strays_witness:
  "scan_folders {(cp ''b'', cp ''x'')}
     [(cp ''c'', Directory [(cp ''1.pdf'', True)]),
      (cp ''stray.pdf'', RegularFile),
      (cp ''a'', Directory [(cp ''n.txt'', True), (cp ''d.pdf'', False)]),
      (cp ''notes.txt'', RegularFile),
      (cp ''b'', Directory [(cp ''x.pdf'', True), (cp ''a.PDF'', True), (cp ''r.md'', True)]),
      (cp ''dev'', OtherEntry)] =
   ([\<lparr>name = cp ''b'', total_pdfs = 2, processed = 1, pending = 1,
       pdf_files = [cp ''a.PDF'', cp ''x.pdf'']\<rparr>,
     \<lparr>name = cp ''c'', total_pdfs = 1, processed = 0, pending = 1,
       pdf_files = [cp ''1.pdf'']\<rparr>],
    [cp ''stray.pdf''])"
proof -
  let ?root = "[(cp ''c'', Directory [(cp ''1.pdf'', True)]),
      (cp ''stray.pdf'', RegularFile),
      (cp ''a'', Directory [(cp ''n.txt'', True), (cp ''d.pdf'', False)]),
      (cp ''notes.txt'', RegularFile),
      (cp ''b'', Directory [(cp ''x.pdf'', True), (cp ''a.PDF'', True), (cp ''r.md'', True)]),
      (cp ''dev'', OtherEntry)]"
  have h: "distinct (map fst ?root)"
    by (simp add: cp_def)
  have e: ?thesis
    by code_simp
  from scan_folders_buckets_and_strays [OF h] e show ?thesis
    by blast
qed

text \<open>
  A file of the root that is not a directory and has another suffix is not reported as a
  stray document.
\<close>

theorem scan_folders_non_pdf_file_not_stray:
  "(cp ''notes.txt'', RegularFile) \<in> set [(cp ''notes.txt'', RegularFile)] \<and>
   cp ''notes.txt'' \<notin> set (snd (scan_folders {} [(cp ''notes.txt'', RegularFile)]))"
  by (simp add: scan_folders_def is_pdf_name_def path_suffix_def cp_def lower_ascii_def)


section \<open>Properties of re-scoring\<close>




lemma combined_header_fresh:
  "distinct CSV_HEADERS \<and> FLAG_COL \<notin> set CSV_HEADERS \<and>
   score_col scenario \<notin> set CSV_HEADERS \<and> level_col scenario \<notin> set CSV_HEADERS"
  by (simp add: CSV_HEADERS_def FLAG_COL_def score_col_def level_col_def)

















lemma read_score_None: "read_score ops r col = None \<longleftrightarrow> rejects ops r col"
  by (simp add: read_score_def rejects_def split: option.splits)

lemma parse_row_dropped: "row_dropped ops r \<Longrightarrow> parse_row ops r = Inl (get_text r COL_INDEX [63])"
  by (auto simp: row_dropped_def SCORE_COLUMNS_def parse_row_def read_score_None [symmetric]
      split: option.splits)

lemma parse_row_kept:
  assumes "\<not> row_dropped ops r"
  shows "\<exists>p. parse_row ops r = Inr p \<and> original_row p = r \<and>
           read_score ops r COL_RIGOR = Some (rigor p) \<and>
           read_score ops r COL_INNOVATION = Some (innovation p) \<and>
           read_score ops r COL_PRACTICALITY = Some (practicality p) \<and>
           read_score ops r COL_IMPACT = Some (impact p) \<and>
           read_score ops r COL_READABILITY = Some (readability p)"
proof -
  from assms have "read_score ops r COL_RIGOR \<noteq> None" "read_score ops r COL_INNOVATION \<noteq> None"
    "read_score ops r COL_PRACTICALITY \<noteq> None" "read_score ops r COL_IMPACT \<noteq> None"
    "read_score ops r COL_READABILITY \<noteq> None" "read_score ops r COL_OVERALL \<noteq> None"
    by (simp_all add: row_dropped_def SCORE_COLUMNS_def read_score_None)
  then show ?thesis
    by (auto simp: parse_row_def)
qed

lemma load_p0_csv_Cons:
  "load_p0_csv ops (r # rows) =
     (case parse_row ops r of
        Inr p \<Rightarrow> (p # fst (load_p0_csv ops rows), snd (load_p0_csv ops rows))
      | Inl ident \<Rightarrow> (fst (load_p0_csv ops rows), ident # snd (load_p0_csv ops rows)))"
  by (simp split: prod.splits sum.splits)

lemma load_p0_csv_kept:
  "map original_row (fst (load_p0_csv ops rows)) = filter (\<lambda>r. \<not> row_dropped ops r) rows"
proof (induction rows)
  case Nil
  show ?case by simp
next
  case (Cons r rows)
  show ?case
  proof (cases "row_dropped ops r")
    case True
    with Cons parse_row_dropped [OF True] show ?thesis
      by (simp add: load_p0_csv_Cons del: load_p0_csv.simps)
  next
    case False
    from parse_row_kept [OF False] obtain p where "parse_row ops r = Inr p" "original_row p = r"
      by blast
    with Cons False show ?thesis
      by (simp add: load_p0_csv_Cons del: load_p0_csv.simps)
  qed
qed

lemma load_p0_csv_warnings:
  "snd (load_p0_csv ops rows) =
     map (\<lambda>r. get_text r COL_INDEX [63]) (filter (row_dropped ops) rows)"
proof (induction rows)
  case Nil
  show ?case by simp
next
  case (Cons r rows)
  show ?case
  proof (cases "row_dropped ops r")
    case True
    with Cons parse_row_dropped [OF True] show ?thesis
      by (simp add: load_p0_csv_Cons del: load_p0_csv.simps)
  next
    case False
    from parse_row_kept [OF False] obtain p where "parse_row ops r = Inr p"
      by blast
    with Cons False show ?thesis
      by (simp add: load_p0_csv_Cons del: load_p0_csv.simps)
  qed
qed

lemma load_p0_csv_values:
  "p \<in> set (fst (load_p0_csv ops rows)) \<Longrightarrow>
     read_score ops (original_row p) COL_RIGOR = Some (rigor p) \<and>
     read_score ops (original_row p) COL_INNOVATION = Some (innovation p) \<and>
     read_score ops (original_row p) COL_PRACTICALITY = Some (practicality p) \<and>
     read_score ops (original_row p) COL_IMPACT = Some (impact p) \<and>
     read_score ops (original_row p) COL_READABILITY = Some (readability p)"
proof (induction rows)
  case Nil
  then show ?case by simp
next
  case (Cons r rows)
  show ?case
  proof (cases "row_dropped ops r")
    case True
    with Cons parse_row_dropped [OF True] show ?thesis
      by (simp add: load_p0_csv_Cons del: load_p0_csv.simps)
  next
    case False
    from parse_row_kept [OF False] obtain q where q: "parse_row ops r = Inr q" "original_row q = r"
      "read_score ops r COL_RIGOR = Some (rigor q)"
      "read_score ops r COL_INNOVATION = Some (innovation q)"
      "read_score ops r COL_PRACTICALITY = Some (practicality q)"
      "read_score ops r COL_IMPACT = Some (impact q)"
      "read_score ops r COL_READABILITY = Some (readability q)"
      by blast
    from Cons.prems q(1) have "p = q \<or> p \<in> set (fst (load_p0_csv ops rows))"
      by (simp add: load_p0_csv_Cons del: load_p0_csv.simps)
    then show ?thesis
    proof
      assume "p = q"
      with q show ?thesis by simp
    next
      assume "p \<in> set (fst (load_p0_csv ops rows))"
      then show ?thesis by (rule Cons.IH)
    qed
  qed
qed

text \<open>
  C6, as the code has it. A row is dropped, with one warning that names its index column,
  exactly when one of its score values is not empty and is rejected by \<open>float\<close>; the records
  kept are the other rows, in order, so a row with such a value in one of its five dimensions
  is in no table. An empty or absent value is read as 0 and does not drop the row. The
  comparison table has one row for each record kept; the ranking tables are built from the
  same records.
\<close>

theorem load_p0_csv_drops_rejected_rows:
  "map original_row (fst (load_p0_csv ops rows)) = filter (\<lambda>r. \<not> row_dropped ops r) rows \<and>
   snd (load_p0_csv ops rows) =
     map (\<lambda>r. get_text r COL_INDEX [63]) (filter (row_dropped ops) rows) \<and>
   (\<forall>r \<in> set rows. (\<exists>col \<in> set SCORE_COLUMNS. rejects ops r col) \<longrightarrow>
      row_dropped ops r \<and> r \<notin> set (map original_row (fst (load_p0_csv ops rows)))) \<and>
   (\<forall>p \<in> set (fst (load_p0_csv ops rows)).
      read_score ops (original_row p) COL_RIGOR = Some (rigor p) \<and>
      read_score ops (original_row p) COL_INNOVATION = Some (innovation p) \<and>
      read_score ops (original_row p) COL_PRACTICALITY = Some (practicality p) \<and>
      read_score ops (original_row p) COL_IMPACT = Some (impact p) \<and>
      read_score ops (original_row p) COL_READABILITY = Some (readability p)) \<and>
   (\<forall>r col. map_of r col = Some [] \<or> map_of r col = None \<longrightarrow>
      read_score ops r col = Some 0 \<and> \<not> rejects ops r col) \<and>
   length (create_comparison_table ops (fst (load_p0_csv ops rows)) scenarios) =
     Suc (length (filter (\<lambda>r. \<not> row_dropped ops r) rows))"
proof -
  have a: "map original_row (fst (load_p0_csv ops rows)) =
      filter (\<lambda>r. \<not> row_dropped ops r) rows"
    by (rule load_p0_csv_kept)
  have b: "snd (load_p0_csv ops rows) =
     map (\<lambda>r. get_text r COL_INDEX [63]) (filter (row_dropped ops) rows)"
    by (rule load_p0_csv_warnings)
  have c: "row_dropped ops r \<and> r \<notin> set (map original_row (fst (load_p0_csv ops rows)))"
    if "\<exists>col \<in> set SCORE_COLUMNS. rejects ops r col" for r
  proof -
    from that have "row_dropped ops r"
      by (auto simp: row_dropped_def)
    then show ?thesis
      unfolding a by simp
  qed
  have d: "read_score ops r col = Some 0 \<and> \<not> rejects ops r col"
    if "map_of r col = Some [] \<or> map_of r col = None" for r col
    using that by (auto simp: read_score_def rejects_def)
  have "length (fst (load_p0_csv ops rows)) = length (filter (\<lambda>r. \<not> row_dropped ops r) rows)"
    using arg_cong [OF a, of length] by simp
  then have e: "length (create_comparison_table ops (fst (load_p0_csv ops rows)) scenarios) =
     Suc (length (filter (\<lambda>r. \<not> row_dropped ops r) rows))"
    by (simp add: create_comparison_table_def)
  from a b c d e load_p0_csv_values [of _ ops rows] show ?thesis
    by blast
qed

theorem load_p0_csv_drops_rejected_rows_witness:
  "rejects \<lparr>float_of_str = (\<lambda>s. if s = cp ''8'' then Some 8 else if s = cp ''9'' then Some 9 else None),
      fadd = (+), fmul = (*), fround1 = (\<lambda>x. of_int (round (x * 10)) / 10)\<rparr>
     [(COL_INDEX, cp ''2''),
          (COL_TITLE, cp ''B''),
          (COL_RIGOR, cp ''abc''),
          (COL_INNOVATION, cp ''8''),
          (COL_PRACTICALITY, cp ''8''),
          (COL_IMPACT, cp ''8''),
          (COL_READABILITY, cp ''8''),
          (COL_OVERALL, cp ''8''),
          (COL_LEVEL, stars 4)] COL_RIGOR \<and>
   row_dropped \<lparr>float_of_str = (\<lambda>s. if s = cp ''8'' then Some 8 else if s = cp ''9'' then Some 9 else None),
      fadd = (+), fmul = (*), fround1 = (\<lambda>x. of_int (round (x * 10)) / 10)\<rparr>
     [(COL_INDEX, cp ''2''),
          (COL_TITLE, cp ''B''),
          (COL_RIGOR, cp ''abc''),
          (COL_INNOVATION, cp ''8''),
          (COL_PRACTICALITY, cp ''8''),
          (COL_IMPACT, cp ''8''),
          (COL_READABILITY, cp ''8''),
          (COL_OVERALL, cp ''8''),
          (COL_LEVEL, stars 4)] \<and>
   load_p0_csv \<lparr>float_of_str = (\<lambda>s. if s = cp ''8'' then Some 8 else if s = cp ''9'' then Some 9 else None),
      fadd = (+), fmul = (*), fround1 = (\<lambda>x. of_int (round (x * 10)) / 10)\<rparr>
     [[(COL_INDEX, cp ''1''),
          (COL_TITLE, cp ''A''),
          (COL_RIGOR, cp ''8''),
          (COL_INNOVATION, cp ''8''),
          (COL_PRACTICALITY, cp ''8''),
          (COL_IMPACT, cp ''8''),
          (COL_READABILITY, cp ''8''),
          (COL_OVERALL, cp ''8''),
          (COL_LEVEL, stars 4)],
      [(COL_INDEX, cp ''2''),
          (COL_TITLE, cp ''B''),
          (COL_RIGOR, cp ''abc''),
          (COL_INNOVATION, cp ''8''),
          (COL_PRACTICALITY, cp ''8''),
          (COL_IMPACT, cp ''8''),
          (COL_READABILITY, cp ''8''),
          (COL_OVERALL, cp ''8''),
          (COL_LEVEL, stars 4)],
      [(COL_INDEX, cp ''7''),
          (COL_TITLE, cp ''T''),
          (COL_RIGOR, []),
          (COL_INNOVATION, cp ''8''),
          (COL_PRACTICALITY, cp ''8''),
          (COL_IMPACT, cp ''8''),
          (COL_READABILITY, cp ''8''),
          (COL_OVERALL, cp ''8''),
          (COL_LEVEL, stars 4)]] =
   ([\<lparr>index = cp ''1'', title = cp ''A'', rigor = 8, innovation = 8, practicality = 8, impact = 8, readability = 8, p0_overall = 8, p0_level = stars 4,
       original_row = [(COL_INDEX, cp ''1''),
            (COL_TITLE, cp ''A''),
            (COL_RIGOR, cp ''8''),
            (COL_INNOVATION, cp ''8''),
            (COL_PRACTICALITY, cp ''8''),
            (COL_IMPACT, cp ''8''),
            (COL_READABILITY, cp ''8''),
            (COL_OVERALL, cp ''8''),
            (COL_LEVEL, stars 4)]\<rparr>,
     \<lparr>index = cp ''7'', title = cp ''T'', rigor = 0, innovation = 8, practicality = 8, impact = 8, readability = 8, p0_overall = 8, p0_level = stars 4,
       original_row = [(COL_INDEX, cp ''7''),
            (COL_TITLE, cp ''T''),
            (COL_RIGOR, []),
            (COL_INNOVATION, cp ''8''),
            (COL_PRACTICALITY, cp ''8''),
            (COL_IMPACT, cp ''8''),
            (COL_READABILITY, cp ''8''),
            (COL_OVERALL, cp ''8''),
            (COL_LEVEL, stars 4)]\<rparr>], [cp ''2''])"
proof -
  let ?ops = "\<lparr>float_of_str = (\<lambda>s. if s = cp ''8'' then Some 8 else if s = cp ''9'' then Some 9 else None),
      fadd = (+), fmul = (*), fround1 = (\<lambda>x. of_int (round (x * 10)) / 10)\<rparr>"
  let ?good = "[(COL_INDEX, cp ''1''),
          (COL_TITLE, cp ''A''),
          (COL_RIGOR, cp ''8''),
          (COL_INNOVATION, cp ''8''),
          (COL_PRACTICALITY, cp ''8''),
          (COL_IMPACT, cp ''8''),
          (COL_READABILITY, cp ''8''),
          (COL_OVERALL, cp ''8''),
          (COL_LEVEL, stars 4)]"
  let ?bad = "[(COL_INDEX, cp ''2''),
          (COL_TITLE, cp ''B''),
          (COL_RIGOR, cp ''abc''),
          (COL_INNOVATION, cp ''8''),
          (COL_PRACTICALITY, cp ''8''),
          (COL_IMPACT, cp ''8''),
          (COL_READABILITY, cp ''8''),
          (COL_OVERALL, cp ''8''),
          (COL_LEVEL, stars 4)]"
  let ?empty = "[(COL_INDEX, cp ''7''),
          (COL_TITLE, cp ''T''),
          (COL_RIGOR, []),
          (COL_INNOVATION, cp ''8''),
          (COL_PRACTICALITY, cp ''8''),
          (COL_IMPACT, cp ''8''),
          (COL_READABILITY, cp ''8''),
          (COL_OVERALL, cp ''8''),
          (COL_LEVEL, stars 4)]"
  have h: "rejects ?ops ?bad COL_RIGOR"
    by (simp add: rejects_def cp_def COL_INDEX_def COL_TITLE_def COL_RIGOR_def)
  then have h': "\<exists>col \<in> set SCORE_COLUMNS. rejects ?ops ?bad col"
    by (auto simp: SCORE_COLUMNS_def)
  have e: "load_p0_csv ?ops [?good, ?bad, ?empty] =
   ([\<lparr>index = cp ''1'', title = cp ''A'', rigor = 8, innovation = 8, practicality = 8, impact = 8, readability = 8, p0_overall = 8, p0_level = stars 4,
       original_row = [(COL_INDEX, cp ''1''),
            (COL_TITLE, cp ''A''),
            (COL_RIGOR, cp ''8''),
            (COL_INNOVATION, cp ''8''),
            (COL_PRACTICALITY, cp ''8''),
            (COL_IMPACT, cp ''8''),
            (COL_READABILITY, cp ''8''),
            (COL_OVERALL, cp ''8''),
            (COL_LEVEL, stars 4)]\<rparr>,
     \<lparr>index = cp ''7'', title = cp ''T'', rigor = 0, innovation = 8, practicality = 8, impact = 8, readability = 8, p0_overall = 8, p0_level = stars 4,
       original_row = [(COL_INDEX, cp ''7''),
            (COL_TITLE, cp ''T''),
            (COL_RIGOR, []),
            (COL_INNOVATION, cp ''8''),
            (COL_PRACTICALITY, cp ''8''),
            (COL_IMPACT, cp ''8''),
            (COL_READABILITY, cp ''8''),
            (COL_OVERALL, cp ''8''),
            (COL_LEVEL, stars 4)]\<rparr>], [cp ''2''])"
    by (simp add: parse_row_def read_score_def get_text_def py_strip_def py_isspace_def cp_def
        COL_INDEX_def COL_TITLE_def COL_RIGOR_def COL_INNOVATION_def COL_PRACTICALITY_def
        COL_IMPACT_def COL_READABILITY_def COL_OVERALL_def COL_LEVEL_def)
  from load_p0_csv_drops_rejected_rows [of ?ops "[?good, ?bad, ?empty]"] h'
  have "row_dropped ?ops ?bad"
    by simp
  with h e show ?thesis
    by blast
qed

text \<open>
  A row whose rigor value is empty: \<open>float\<close> would reject the empty string, but is not asked;
  the row is kept with a rigor of 0, and no warning is printed.
\<close>

theorem load_p0_csv_empty_value_kept:
  "float_of_str \<lparr>float_of_str = (\<lambda>s. if s = cp ''8'' then Some 8 else if s = cp ''9'' then Some 9 else None),
      fadd = (+), fmul = (*), fround1 = (\<lambda>x. of_int (round (x * 10)) / 10)\<rparr> [] = None \<and>
   load_p0_csv \<lparr>float_of_str = (\<lambda>s. if s = cp ''8'' then Some 8 else if s = cp ''9'' then Some 9 else None),
      fadd = (+), fmul = (*), fround1 = (\<lambda>x. of_int (round (x * 10)) / 10)\<rparr>
     [[(COL_INDEX, cp ''7''),
          (COL_TITLE, cp ''T''),
          (COL_RIGOR, []),
          (COL_INNOVATION, cp ''8''),
          (COL_PRACTICALITY, cp ''8''),
          (COL_IMPACT, cp ''8''),
          (COL_READABILITY, cp ''8''),
          (COL_OVERALL, cp ''8''),
          (COL_LEVEL, stars 4)]] =
   ([\<lparr>index = cp ''7'', title = cp ''T'', rigor = 0, innovation = 8, practicality = 8, impact = 8, readability = 8, p0_overall = 8, p0_level = stars 4,
       original_row = [(COL_INDEX, cp ''7''),
            (COL_TITLE, cp ''T''),
            (COL_RIGOR, []),
            (COL_INNOVATION, cp ''8''),
            (COL_PRACTICALITY, cp ''8''),
            (COL_IMPACT, cp ''8''),
            (COL_READABILITY, cp ''8''),
            (COL_OVERALL, cp ''8''),
            (COL_LEVEL, stars 4)]\<rparr>], [])"
  by (simp add: parse_row_def read_score_def get_text_def py_strip_def py_isspace_def cp_def
      COL_INDEX_def COL_TITLE_def COL_RIGOR_def COL_INNOVATION_def COL_PRACTICALITY_def
      COL_IMPACT_def COL_READABILITY_def COL_OVERALL_def COL_LEVEL_def)



text \<open>
  C9, as the code has it. With no paper and at least one scenario, the first pass raises
  \<open>IndexError\<close> when it builds the header from \<open>papers[0]\<close>; the file of that scenario has
  been opened and is left empty, and no other file is written. With no paper and no scenario
  the function returns without writing.
\<close>

theorem ranking_tables_no_papers:
  "create_scenario_ranking_tables ops [] (scenario # rest) =
     ([(ranking_filename (fst scenario), [])], Some IndexError) \<and>
   create_scenario_ranking_tables ops [] [] = ([], None)"
  by (simp add: ranking_file_def)

text \<open>
  With no paper and no scenario, no exception is raised.
\<close>

theorem ranking_tables_no_papers_no_scenarios:
  "create_scenario_ranking_tables \<lparr>float_of_str = (\<lambda>s. if s = cp ''8'' then Some 8 else if s = cp ''9'' then Some 9 else None),
      fadd = (+), fmul = (*), fround1 = (\<lambda>x. of_int (round (x * 10)) / 10)\<rparr> [] [] = ([], None)"
  by simp

text \<open>
  The level of a score is read from the threshold table from the top, each bound included.
\<close>

theorem score_to_level_thresholds:
  "score_to_level s =
     (if s \<ge> 9 then stars 5 else if s \<ge> 15 / 2 then stars 4 else if s \<ge> 6 then stars 3
      else if s \<ge> 4 then stars 2 else stars 1)"
  by (simp add: score_to_level_def SCORE_TO_LEVEL_def)

end
